theory Spec2Isabelle
  imports Main
begin

section \<open>Data model (types/note.ts)\<close>

text \<open>
  Naming: a TypeScript interface is a record, a string-literal union a datatype. Several
  interfaces share field names, so the fields of the inputs and of the tree node carry a
  prefix (\<open>c_\<close> for CreateNoteInput, \<open>u_\<close> for UpdateNoteInput, \<open>t_\<close> for NoteTree,
  \<open>f_\<close> for NotesFilter); the field \<open>id\<close> of a Note is \<open>note_id\<close>. An optional
  field is an \<open>option\<close>; \<open>null\<close> and \<open>undefined\<close> are both \<open>None\<close>, except in
  UpdateNoteInput, where an absent \<open>parent_id\<close> (\<open>None\<close>) differs from an explicit
  \<open>null\<close> (\<open>Some None\<close>) under object spread. \<open>position\<close> is an integer, as in the
  database schema. Strings are character lists.
\<close>

datatype SyncStatus = Synced | Pending | Syncing | SyncError | Offline

record NoteMetadata =
  created_by :: "string option"
  last_modified_by :: "string option"
  color :: "string option"
  icon :: "string option"
  cover_image :: "string option"
  template_id :: "string option"
  custom_properties :: "(string \<times> string) list option"

definition empty_metadata :: NoteMetadata where
  "empty_metadata = \<lparr>created_by = None, last_modified_by = None, color = None, icon = None,
     cover_image = None, template_id = None, custom_properties = None\<rparr>"

record Note =
  note_id :: string
  title :: string
  content :: string
  summary :: "string option"
  created_at :: string
  updated_at :: string
  parent_id :: "string option"
  position :: int
  is_archived :: bool
  is_favorite :: bool
  tags :: "string list"
  word_count :: nat
  character_count :: nat
  estimated_read_time :: nat
  last_sync_at :: "string option"
  sync_status :: SyncStatus
  version :: nat
  metadata :: NoteMetadata

datatype NoteTree = NoteTree
  (t_id: string) (t_title: string) (t_parent_id: "string option") (t_position: int)
  (t_is_archived: bool) (children: "NoteTree list") (depth: nat) (path: "string list")

record CreateNoteInput =
  c_title :: string
  c_content :: "string option"
  c_parent_id :: "string option"
  c_position :: "int option"
  c_tags :: "string list option"
  c_metadata :: "NoteMetadata option"

record UpdateNoteInput =
  u_id :: string
  u_title :: "string option"
  u_content :: "string option"
  u_parent_id :: "string option option"
  u_position :: "int option"
  u_is_archived :: "bool option"
  u_is_favorite :: "bool option"
  u_tags :: "string list option"
  u_metadata :: "NoteMetadata option"

datatype SortBy = By_created_at | By_updated_at | By_title | By_position
datatype SortOrder = Asc | Desc

record NotesFilter =
  f_search_query :: "string option"
  f_tags :: "string list option"
  f_is_archived :: "bool option"
  f_is_favorite :: "bool option"
  f_parent_id :: "string option option"
  f_created_after :: "string option"
  f_created_before :: "string option"
  f_updated_after :: "string option"
  f_updated_before :: "string option"
  f_sort_by :: "SortBy option"
  f_sort_order :: "SortOrder option"
  f_limit :: "nat option"
  f_offset :: "nat option"

definition empty_filter :: NotesFilter where
  "empty_filter = \<lparr>f_search_query = None, f_tags = None, f_is_archived = None,
     f_is_favorite = None, f_parent_id = None, f_created_after = None, f_created_before = None,
     f_updated_after = None, f_updated_before = None, f_sort_by = None, f_sort_order = None,
     f_limit = None, f_offset = None\<rparr>"

section \<open>The store's state (store/notes-store.ts)\<close>

text \<open>
  An entry of the offline queue has the fields \<open>id\<close>, \<open>operation\<close>, \<open>data\<close> and
  \<open>timestamp\<close>. The store only ever enqueues \<open>'create'\<close> with a CreateNoteInput,
  \<open>'update'\<close> with an UpdateNoteInput and \<open>'delete'\<close> with \<open>{ id }\<close>, so \<open>operation\<close>
  and \<open>data\<close> are one tagged value here.
\<close>

datatype Operation = Create CreateNoteInput | Update UpdateNoteInput | Delete string

record OfflineOperation =
  op_id :: string
  operation :: Operation
  timestamp :: string

datatype ViewMode = Grid | List | Tree

record NotesState =
  "notes" :: "Note list"
  selectedNoteId :: "string option"
  loading :: bool
  error :: "string option"
  searchQuery :: string
  searchResults :: "Note list"
  filters :: NotesFilter
  noteTree :: "NoteTree list"
  expandedNotes :: "string set"
  syncStatus :: SyncStatus
  isOnline :: bool
  lastSyncAt :: "string option"
  offlineQueue :: "OfflineOperation list"
  sidebarCollapsed :: bool
  viewMode :: ViewMode

definition initial_state :: NotesState where
  "initial_state = \<lparr>notes = [], selectedNoteId = None, loading = False, error = None,
     searchQuery = [], searchResults = [], filters = empty_filter, noteTree = [],
     expandedNotes = {}, syncStatus = Synced, isOnline = True, lastSyncAt = None,
     offlineQueue = [], sidebarCollapsed = False, viewMode = Grid\<rparr>"

section \<open>The environment: repository, local storage, identifiers, clock\<close>

text \<open>
  A thrown value is either an \<open>Error\<close> object with its message or something else; the
  catch blocks read \<open>error instanceof Error ? error.message : fallback\<close>.
\<close>

datatype exn = Error string | Thrown

fun message_or :: "exn \<Rightarrow> string \<Rightarrow> string" where
  "message_or (Error m) fallback = m"
| "message_or Thrown fallback = fallback"

text \<open>
  \<open>db.notes\<close> and \<open>utils.checkConnection\<close> (lib/supabase.ts) talk to the remote store, an
  external collaborator: its state is a type parameter \<open>'r\<close>, and every call takes the
  remote state and returns the new one with either the resolved value (\<open>Inr\<close>) or the
  rejection (\<open>Inl\<close>). \<open>checkConnection\<close> catches everything and resolves to a boolean.
\<close>

record 'r NoteRepository =
  db_getAll :: "NotesFilter \<Rightarrow> 'r \<Rightarrow> (exn + Note list) \<times> 'r"
  db_create :: "CreateNoteInput \<Rightarrow> 'r \<Rightarrow> (exn + Note) \<times> 'r"
  db_update :: "UpdateNoteInput \<Rightarrow> 'r \<Rightarrow> (exn + Note) \<times> 'r"
  db_delete :: "string \<Rightarrow> 'r \<Rightarrow> (exn + unit) \<times> 'r"
  checkConnection :: "'r \<Rightarrow> bool \<times> 'r"

text \<open>
  The rest of the world an action touches: the remote state, the results of successive
  calls of \<open>generateId()\<close> and of \<open>new Date().toISOString()\<close> (streams with a read
  position), whether localStorage is available, the values \<open>NoteStorage\<close>
  (lib/storage.ts) last wrote under its three keys, and how many nested calls of
  \<open>buildTreeNode\<close> the call stack still admits before the engine throws a RangeError.

  What a read of the key \<open>STORAGE_KEYS.NOTES\<close> returns is an input of its own,
  \<open>ls_reads\<close>, again a stream with a read position. The store is created with the persist
  middleware under the same key (\<open>name: STORAGE_KEYS.NOTES\<close>), and that middleware, which
  is not among the sources, writes its own entry there; so \<open>NoteStorage.getNotes()\<close> need
  not return what \<open>NoteStorage.setNotes\<close> wrote. A read is \<open>Some ns\<close> when the entry
  parses to an array of notes and \<open>None\<close> when it parses to anything else.
\<close>

record 'r World =
  remote :: 'r
  ids :: "nat \<Rightarrow> string"
  ids_used :: nat
  times :: "nat \<Rightarrow> string"
  times_used :: nat
  ls_available :: bool
  ls_notes :: "Note list option"
  ls_offline_queue :: "OfflineOperation list option"
  ls_last_sync :: "string option"
  ls_reads :: "nat \<Rightarrow> Note list option"
  ls_reads_used :: nat
  stack_limit :: nat

definition generateId :: "'r World \<Rightarrow> string \<times> 'r World" where
  "generateId w = (ids w (ids_used w), w\<lparr>ids_used := Suc (ids_used w)\<rparr>)"

definition toISOString :: "'r World \<Rightarrow> string \<times> 'r World" where
  "toISOString w = (times w (times_used w), w\<lparr>times_used := Suc (times_used w)\<rparr>)"

text \<open>
  \<open>Storage.set\<close> never throws: it returns false when localStorage is unavailable or the
  write fails, and the callers below ignore the boolean.
\<close>

definition setNotes :: "Note list \<Rightarrow> 'r World \<Rightarrow> 'r World" where
  "setNotes ns w = (if ls_available w then w\<lparr>ls_notes := Some ns\<rparr> else w)"

text \<open>
  \<open>Storage.get(STORAGE_KEYS.NOTES, [])\<close>: the default \<open>[]\<close> when localStorage is
  unavailable, else whatever the entry parses to.
\<close>

definition getNotes :: "'r World \<Rightarrow> Note list option \<times> 'r World" where
  "getNotes w =
     (if ls_available w then (ls_reads w (ls_reads_used w), w\<lparr>ls_reads_used := Suc (ls_reads_used w)\<rparr>)
      else (Some [], w))"

definition setOfflineQueue :: "OfflineOperation list \<Rightarrow> 'r World \<Rightarrow> 'r World" where
  "setOfflineQueue q w = (if ls_available w then w\<lparr>ls_offline_queue := Some q\<rparr> else w)"

definition setLastSync :: "string \<Rightarrow> 'r World \<Rightarrow> 'r World" where
  "setLastSync t w = (if ls_available w then w\<lparr>ls_last_sync := Some t\<rparr> else w)"

section \<open>Offline queue (notes-store.ts, addToOfflineQueue .. clearOfflineQueue)\<close>

text \<open>
  Every action is modelled as running to completion: the interleaving of two actions at an
  \<open>await\<close> is outside the model. Messages written to the console are not modelled.
\<close>

definition addToOfflineQueue ::
  "OfflineOperation \<Rightarrow> NotesState \<times> 'r World \<Rightarrow> NotesState \<times> 'r World" where
  "addToOfflineQueue opn sw =
     (case sw of (s, w) \<Rightarrow>
        let s' = s\<lparr>offlineQueue := offlineQueue s @ [opn]\<rparr>
        in (s', setOfflineQueue (offlineQueue s') w))"

definition clearOfflineQueue :: "NotesState \<times> 'r World \<Rightarrow> NotesState \<times> 'r World" where
  "clearOfflineQueue sw =
     (case sw of (s, w) \<Rightarrow> (s\<lparr>offlineQueue := []\<rparr>, setOfflineQueue [] w))"

text \<open>The \<open>switch\<close> inside the \<open>try\<close>: one awaited repository call per operation.\<close>

definition apply_operation ::
  "'r NoteRepository \<Rightarrow> OfflineOperation \<Rightarrow> 'r \<Rightarrow> (exn + unit) \<times> 'r" where
  "apply_operation repo opn r =
     (case operation opn of
        Create inp \<Rightarrow> (case db_create repo inp r of (res, r') \<Rightarrow> (map_sum id (\<lambda>_. ()) res, r'))
      | Update inp \<Rightarrow> (case db_update repo inp r of (res, r') \<Rightarrow> (map_sum id (\<lambda>_. ()) res, r'))
      | Delete i \<Rightarrow> db_delete repo i r)"

text \<open>
  The \<open>for (const operation of offlineQueue)\<close> loop. The \<open>catch\<close> logs the error and
  \<open>continue\<close>s, so both outcomes go on with the next operation. The function returns the
  outcome of each awaited call, in order, with the remote state after the pass.
\<close>

fun drain_loop ::
  "'r NoteRepository \<Rightarrow> OfflineOperation list \<Rightarrow> 'r \<Rightarrow> (exn + unit) list \<times> 'r" where
  "drain_loop repo [] r = ([], r)"
| "drain_loop repo (opn # ops) r =
     (case apply_operation repo opn r of
        (Inl e, r') \<Rightarrow> (case drain_loop repo ops r' of (outs, r'') \<Rightarrow> (Inl e # outs, r''))
      | (Inr u, r') \<Rightarrow> (case drain_loop repo ops r' of (outs, r'') \<Rightarrow> (Inr u # outs, r'')))"

definition processOfflineQueue ::
  "'r NoteRepository \<Rightarrow> NotesState \<times> 'r World \<Rightarrow> NotesState \<times> 'r World" where
  "processOfflineQueue repo sw =
     (case sw of (s, w) \<Rightarrow>
        if length (offlineQueue s) = 0 then (s, w)
        else clearOfflineQueue
               (s, w\<lparr>remote := snd (drain_loop repo (offlineQueue s) (remote w))\<rparr>))"

section \<open>Reset (notes-store.ts, reset)\<close>

definition reset :: "NotesState \<Rightarrow> NotesState" where
  "reset s = s\<lparr>notes := [], selectedNoteId := None, loading := False, error := None,
     searchQuery := [], searchResults := [], filters := empty_filter, noteTree := [],
     expandedNotes := {}, syncStatus := Synced, offlineQueue := [],
     sidebarCollapsed := False, viewMode := Grid\<rparr>"

section \<open>Tree materialisation (notes-store.ts, buildNoteTree)\<close>

text \<open>\<open>!note.parent_id\<close>: the parent is null, undefined or the empty string.\<close>

definition is_root :: "Note \<Rightarrow> bool" where
  "is_root n = (case parent_id n of None \<Rightarrow> True | Some p \<Rightarrow> p = [])"

text \<open>
  \<open>.sort((a, b) => a.position - b.position)\<close>: ascending by position; the sort of an
  array is stable, as \<open>sort_key\<close> is.
\<close>

definition by_position :: "Note list \<Rightarrow> Note list" where
  "by_position ns = sort_key position ns"

text \<open>\<open>notes.filter(n => n.parent_id === id).sort(...)\<close>\<close>

definition children_of :: "Note list \<Rightarrow> string \<Rightarrow> Note list" where
  "children_of ns i = by_position (filter (\<lambda>n. parent_id n = Some i) ns)"

text \<open>
  \<open>xs.map(f)\<close> and \<open>xs.forEach(f)\<close> where \<open>f\<close> may throw: the elements are visited in
  order and the first exception ends the iteration.
\<close>

fun traverse :: "('a \<Rightarrow> exn + 'b) \<Rightarrow> 'a list \<Rightarrow> exn + 'b list" where
  "traverse f [] = Inr []"
| "traverse f (x # xs) =
     (case f x of
        Inl e \<Rightarrow> Inl e
      | Inr y \<Rightarrow> (case traverse f xs of Inl e \<Rightarrow> Inl e | Inr ys \<Rightarrow> Inr (y # ys)))"

definition stack_overflow :: exn where
  "stack_overflow = Error ''Maximum call stack size exceeded''"

text \<open>
  \<open>buildTreeNode(note, depth)\<close> recurses once per level of the hierarchy. Nothing in the
  function bounds the recursion: a collection in which a note is reachable from itself
  (two notes sharing an id, say) recurses until the call stack is exhausted and the engine
  throws a RangeError. The first argument is the number of nested calls the stack admits.
\<close>

fun buildTreeNode :: "nat \<Rightarrow> Note list \<Rightarrow> Note \<Rightarrow> nat \<Rightarrow> exn + NoteTree" where
  "buildTreeNode 0 ns note d = Inl stack_overflow"
| "buildTreeNode (Suc k) ns note d =
     (case traverse (\<lambda>child. buildTreeNode k ns child (d + 1)) (children_of ns (note_id note)) of
        Inl e \<Rightarrow> Inl e
      | Inr cs \<Rightarrow>
          Inr (NoteTree (note_id note) (title note) (parent_id note) (position note)
                 (is_archived note) cs d []))"

text \<open>
  The body of \<open>buildNoteTree\<close> between \<open>get()\<close> and \<open>set(...)\<close>: the roots, sorted, each
  built at depth 0.
\<close>

definition buildTree :: "nat \<Rightarrow> Note list \<Rightarrow> exn + NoteTree list" where
  "buildTree k ns = traverse (\<lambda>note. buildTreeNode k ns note 0) (by_position (filter is_root ns))"

definition buildNoteTree :: "nat \<Rightarrow> NotesState \<Rightarrow> exn + NotesState" where
  "buildNoteTree k s =
     (case buildTree k (notes s) of
        Inl e \<Rightarrow> Inl e
      | Inr tree \<Rightarrow> Inr (s\<lparr>noteTree := tree\<rparr>))"

text \<open>Every node of a tree, the node itself first, and every node of a forest.\<close>

fun nodes :: "NoteTree \<Rightarrow> NoteTree list" where
  "nodes (NoteTree i ti p pos a cs d pth) = NoteTree i ti p pos a cs d pth # concat (map nodes cs)"

definition all_nodes :: "NoteTree list \<Rightarrow> NoteTree list" where
  "all_nodes ts = concat (map nodes ts)"

text \<open>The fields a tree node copies from its note.\<close>

definition note_view :: "Note \<Rightarrow> string \<times> string \<times> string option \<times> int \<times> bool" where
  "note_view n = (note_id n, title n, parent_id n, position n, is_archived n)"

definition t_view :: "NoteTree \<Rightarrow> string \<times> string \<times> string option \<times> int \<times> bool" where
  "t_view t = (t_id t, t_title t, t_parent_id t, t_position t, t_is_archived t)"

text \<open>
  The number of ancestor hops of a note in the flat collection: a root is zero hops from a
  root, and a note whose \<open>parent_id\<close> is the id of a note \<open>k\<close> hops from a root is
  \<open>k + 1\<close> hops from a root.
\<close>

inductive hops :: "Note list \<Rightarrow> Note \<Rightarrow> nat \<Rightarrow> bool" for ns :: "Note list" where
  hops_root: "n \<in> set ns \<Longrightarrow> is_root n \<Longrightarrow> hops ns n 0"
| hops_child: "hops ns p k \<Longrightarrow> c \<in> set ns \<Longrightarrow> parent_id c = Some (note_id p) \<Longrightarrow> hops ns c (Suc k)"

code_pred hops .

section \<open>Hierarchy helpers (the hook useNoteHierarchy)\<close>

text \<open>
  \<open>getDescendants\<close> recurses like \<open>buildTreeNode\<close> and has the same stack bound as first
  argument.
\<close>

fun getDescendants :: "nat \<Rightarrow> Note list \<Rightarrow> string \<Rightarrow> exn + Note list" where
  "getDescendants 0 ns i = Inl stack_overflow"
| "getDescendants (Suc k) ns i =
     (case traverse
             (\<lambda>child. case getDescendants k ns (note_id child) of
                         Inl e \<Rightarrow> Inl e
                       | Inr ds \<Rightarrow> Inr (child # ds))
             (filter (\<lambda>n. parent_id n = Some i) ns) of
        Inl e \<Rightarrow> Inl e
      | Inr dss \<Rightarrow> Inr (concat dss))"

definition canMoveNote :: "nat \<Rightarrow> Note list \<Rightarrow> string \<Rightarrow> string option \<Rightarrow> exn + bool" where
  "canMoveNote k ns noteId targetParentId =
     (if Some noteId = targetParentId then Inr False
      else case getDescendants k ns noteId of
             Inl e \<Rightarrow> Inl e
           | Inr ds \<Rightarrow> Inr (\<not> list_ex (\<lambda>d. Some (note_id d) = targetParentId) ds))"

section \<open>Create, update, delete and move (notes-store.ts)\<close>

text \<open>The note \<open>createNote\<close> synthesises while offline, from the input, an id and three timestamps.\<close>

definition local_note :: "CreateNoteInput \<Rightarrow> string \<Rightarrow> string \<Rightarrow> string \<Rightarrow> string \<Rightarrow> Note" where
  "local_note inp i t1 t2 t3 =
     \<lparr>note_id = i,
      title = c_title inp,
      content = (case c_content inp of None \<Rightarrow> [] | Some c \<Rightarrow> c),
      summary = Some [],
      created_at = t1,
      updated_at = t2,
      parent_id = (case c_parent_id inp of None \<Rightarrow> None | Some p \<Rightarrow> if p = [] then None else Some p),
      position = (case c_position inp of None \<Rightarrow> 0 | Some p \<Rightarrow> p),
      is_archived = False,
      is_favorite = False,
      tags = (case c_tags inp of None \<Rightarrow> [] | Some ts \<Rightarrow> ts),
      word_count = 0,
      character_count = (case c_content inp of None \<Rightarrow> 0 | Some c \<Rightarrow> length c),
      estimated_read_time = 1,
      last_sync_at = Some t3,
      sync_status = Pending,
      version = 1,
      metadata = (case c_metadata inp of None \<Rightarrow> empty_metadata | Some m \<Rightarrow> m)\<rparr>"

text \<open>The offline branch of \<open>createNote\<close>: the new note, and the operation enqueued.\<close>

definition create_offline ::
  "CreateNoteInput \<Rightarrow> NotesState \<times> 'r World \<Rightarrow> Note \<times> NotesState \<times> 'r World" where
  "create_offline inp sw =
     (case sw of (s, w) \<Rightarrow>
        let (i, w1) = generateId w;
            (t1, w2) = toISOString w1;
            (t2, w3) = toISOString w2;
            (t3, w4) = toISOString w3;
            newNote = local_note inp i t1 t2 t3;
            (j, w5) = generateId w4;
            (t4, w6) = toISOString w5;
            (s', w7) = addToOfflineQueue \<lparr>op_id = j, operation = Create inp, timestamp = t4\<rparr> (s, w6)
        in (newNote, s', w7))"

definition createNote ::
  "'r NoteRepository \<Rightarrow> CreateNoteInput \<Rightarrow> NotesState \<times> 'r World
     \<Rightarrow> Note option \<times> NotesState \<times> 'r World" where
  "createNote repo inp sw =
     (case sw of (s0, w) \<Rightarrow>
        let s = s0\<lparr>loading := True, error := None\<rparr>;
            (res, s1, w1) =
              (if isOnline s then
                 (case db_create repo inp (remote w) of
                    (Inl e, r') \<Rightarrow> (Inl e, s, w\<lparr>remote := r'\<rparr>)
                  | (Inr n, r') \<Rightarrow> (Inr n, s, w\<lparr>remote := r'\<rparr>))
               else (case create_offline inp (s, w) of (n, s', w') \<Rightarrow> (Inr n, s', w')))
        in (case res of
              Inl e \<Rightarrow>
                (None, s1\<lparr>error := Some (message_or e ''Failed to create note''), loading := False\<rparr>, w1)
            | Inr newNote \<Rightarrow>
                let s2 = s1\<lparr>notes := notes s1 @ [newNote],
                           selectedNoteId := Some (note_id newNote), loading := False\<rparr>;
                    w2 = setNotes (notes s2) w1
                in (case buildNoteTree (stack_limit w2) s2 of
                      Inl e \<Rightarrow>
                        (None, s2\<lparr>error := Some (message_or e ''Failed to create note''),
                                   loading := False\<rparr>, w2)
                    | Inr s3 \<Rightarrow> (Some newNote, s3, w2))))"

text \<open>
  \<open>{ ...existingNote, ...input, updated_at: ..., sync_status: 'pending' }\<close>: a field the
  input has replaces the note's.
\<close>

definition merge_update :: "Note \<Rightarrow> UpdateNoteInput \<Rightarrow> string \<Rightarrow> Note" where
  "merge_update existingNote inp t =
     existingNote\<lparr>
       note_id := u_id inp,
       title := (case u_title inp of None \<Rightarrow> title existingNote | Some v \<Rightarrow> v),
       content := (case u_content inp of None \<Rightarrow> content existingNote | Some v \<Rightarrow> v),
       parent_id := (case u_parent_id inp of None \<Rightarrow> parent_id existingNote | Some v \<Rightarrow> v),
       position := (case u_position inp of None \<Rightarrow> position existingNote | Some v \<Rightarrow> v),
       is_archived := (case u_is_archived inp of None \<Rightarrow> is_archived existingNote | Some v \<Rightarrow> v),
       is_favorite := (case u_is_favorite inp of None \<Rightarrow> is_favorite existingNote | Some v \<Rightarrow> v),
       tags := (case u_tags inp of None \<Rightarrow> tags existingNote | Some v \<Rightarrow> v),
       metadata := (case u_metadata inp of None \<Rightarrow> metadata existingNote | Some v \<Rightarrow> v),
       updated_at := t,
       sync_status := Pending\<rparr>"

text \<open>\<open>xs.findIndex(p)\<close>, with \<open>None\<close> for \<open>-1\<close>.\<close>

fun findIndex :: "('a \<Rightarrow> bool) \<Rightarrow> 'a list \<Rightarrow> nat option" where
  "findIndex p [] = None"
| "findIndex p (x # xs) = (if p x then Some 0 else map_option Suc (findIndex p xs))"

text \<open>The offline branch of \<open>updateNote\<close>; it throws when the note is not in the collection.\<close>

definition update_offline ::
  "UpdateNoteInput \<Rightarrow> NotesState \<times> 'r World \<Rightarrow> (exn + Note) \<times> NotesState \<times> 'r World" where
  "update_offline inp sw =
     (case sw of (s, w) \<Rightarrow>
        (case find (\<lambda>n. note_id n = u_id inp) (notes s) of
           None \<Rightarrow> (Inl (Error ''Note not found''), s, w)
         | Some existingNote \<Rightarrow>
             let (t1, w1) = toISOString w;
                 updatedNote = merge_update existingNote inp t1;
                 (j, w2) = generateId w1;
                 (t2, w3) = toISOString w2;
                 (s', w4) = addToOfflineQueue \<lparr>op_id = j, operation = Update inp, timestamp = t2\<rparr> (s, w3)
             in (Inr updatedNote, s', w4)))"

definition updateNote ::
  "'r NoteRepository \<Rightarrow> UpdateNoteInput \<Rightarrow> NotesState \<times> 'r World
     \<Rightarrow> Note option \<times> NotesState \<times> 'r World" where
  "updateNote repo inp sw =
     (case sw of (s, w) \<Rightarrow>
        let (res, s1, w1) =
              (if isOnline s then
                 (case db_update repo inp (remote w) of (r, r') \<Rightarrow> (r, s, w\<lparr>remote := r'\<rparr>))
               else update_offline inp (s, w))
        in (case res of
              Inl e \<Rightarrow> (None, s1\<lparr>error := Some (message_or e ''Failed to update note'')\<rparr>, w1)
            | Inr updatedNote \<Rightarrow>
                let s2 = (case findIndex (\<lambda>n. note_id n = u_id inp) (notes s1) of
                            None \<Rightarrow> s1
                          | Some index \<Rightarrow> s1\<lparr>notes := (notes s1)[index := updatedNote]\<rparr>);
                    w2 = setNotes (notes s2) w1
                in (Some updatedNote, s2, w2)))"

definition deleteNote ::
  "'r NoteRepository \<Rightarrow> string \<Rightarrow> NotesState \<times> 'r World \<Rightarrow> bool \<times> NotesState \<times> 'r World" where
  "deleteNote repo i sw =
     (case sw of (s, w) \<Rightarrow>
        let (res, s1, w1) =
              (if isOnline s then
                 (case db_delete repo i (remote w) of (r, r') \<Rightarrow> (r, s, w\<lparr>remote := r'\<rparr>))
               else
                 let (j, wa) = generateId w;
                     (t, wb) = toISOString wa;
                     (s', wc) = addToOfflineQueue \<lparr>op_id = j, operation = Delete i, timestamp = t\<rparr> (s, wb)
                 in (Inr (), s', wc))
        in (case res of
              Inl e \<Rightarrow> (False, s1\<lparr>error := Some (message_or e ''Failed to delete note'')\<rparr>, w1)
            | Inr u \<Rightarrow>
                let s2 = s1\<lparr>notes := filter (\<lambda>n. note_id n \<noteq> i) (notes s1),
                           selectedNoteId :=
                             (if selectedNoteId s1 = Some i then None else selectedNoteId s1)\<rparr>;
                    w2 = setNotes (notes s2) w1
                in (case buildNoteTree (stack_limit w2) s2 of
                      Inl e \<Rightarrow> (False, s2\<lparr>error := Some (message_or e ''Failed to delete note'')\<rparr>, w2)
                    | Inr s3 \<Rightarrow> (True, s3, w2))))"

text \<open>
  \<open>moveNote\<close> awaits \<open>updateNote\<close>, which catches its own errors and resolves to null, and
  rebuilds the tree; only the rebuild can make it return false.
\<close>

definition moveNote ::
  "'r NoteRepository \<Rightarrow> string \<Rightarrow> string option \<Rightarrow> int \<Rightarrow> NotesState \<times> 'r World
     \<Rightarrow> bool \<times> NotesState \<times> 'r World" where
  "moveNote repo noteId newParentId newPosition sw =
     (case updateNote repo
             \<lparr>u_id = noteId, u_title = None, u_content = None, u_parent_id = Some newParentId,
              u_position = Some newPosition, u_is_archived = None, u_is_favorite = None,
              u_tags = None, u_metadata = None\<rparr> sw of
        (res, s1, w1) \<Rightarrow>
          (case buildNoteTree (stack_limit w1) s1 of
             Inl e \<Rightarrow> (False, s1, w1)
           | Inr s2 \<Rightarrow> (True, s2, w1)))"

text \<open>A sequence of store actions, as a caller issues them one after the other.\<close>

datatype Action = CreateNote CreateNoteInput | UpdateNote UpdateNoteInput | DeleteNote string

fun run_action ::
  "'r NoteRepository \<Rightarrow> Action \<Rightarrow> NotesState \<times> 'r World \<Rightarrow> NotesState \<times> 'r World" where
  "run_action repo (CreateNote inp) sw = snd (createNote repo inp sw)"
| "run_action repo (UpdateNote inp) sw = snd (updateNote repo inp sw)"
| "run_action repo (DeleteNote i) sw = snd (deleteNote repo i sw)"

fun run_actions ::
  "'r NoteRepository \<Rightarrow> Action list \<Rightarrow> NotesState \<times> 'r World \<Rightarrow> NotesState \<times> 'r World" where
  "run_actions repo [] sw = sw"
| "run_actions repo (a # as) sw = run_actions repo as (run_action repo a sw)"

text \<open>
  Whether an action issued offline reaches the queue: an update does when a note with its id
  is in the collection, a create and a delete always do.
\<close>

fun enqueues :: "Action \<Rightarrow> NotesState \<Rightarrow> bool" where
  "enqueues (UpdateNote inp) s = list_ex (\<lambda>n. note_id n = u_id inp) (notes s)"
| "enqueues a s = True"

fun enqueued :: "'r NoteRepository \<Rightarrow> Action list \<Rightarrow> NotesState \<times> 'r World \<Rightarrow> nat" where
  "enqueued repo [] sw = 0"
| "enqueued repo (a # as) sw =
     (if enqueues a (fst sw) then 1 else 0) + enqueued repo as (run_action repo a sw)"

section \<open>Fetching and the sync hook (notes-store.ts, lib/hooks/use-sync.ts, lib/constants.ts)\<close>

definition setSyncStatus :: "SyncStatus \<Rightarrow> NotesState \<Rightarrow> NotesState" where
  "setSyncStatus status s = s\<lparr>syncStatus := status\<rparr>"

text \<open>
  The interface types \<open>notes\<close> as an array, and so does the record \<open>NotesState\<close>. One
  action can break that: \<open>fetchNotes\<close> assigns to \<open>state.notes\<close> what
  \<open>NoteStorage.getNotes()\<close> returned, array or not. A store is therefore either
  \<open>Store s w\<close>, whose collection is the array \<open>notes s\<close>, or \<open>NotArray s w\<close>, whose
  \<open>state.notes\<close> holds a value that is no array; in the latter the field \<open>notes\<close> of
  \<open>s\<close> says nothing. Every other action of the model is given on a store of the first
  kind.
\<close>

datatype 'r Store =
    Store (state_of: NotesState) (world_of: "'r World")
  | NotArray (state_of: NotesState) (world_of: "'r World")

text \<open>The same kind of store around a new state and world, after a step that leaves \<open>notes\<close> alone.\<close>

definition restore :: "'r Store \<Rightarrow> NotesState \<times> 'r World \<Rightarrow> 'r Store" where
  "restore st sw =
     (case st of
        Store s w \<Rightarrow> Store (fst sw) (snd sw)
      | NotArray s w \<Rightarrow> NotArray (fst sw) (snd sw))"

text \<open>What \<open>buildNoteTree\<close> throws at \<open>notes.map(...)\<close> when \<open>notes\<close> is no array.\<close>

definition not_a_function :: exn where
  "not_a_function = Error ''notes.map is not a function''"

text \<open>
  The \<open>catch\<close> of \<open>fetchNotes\<close>: it records the message and assigns to \<open>notes\<close> what
  \<open>NoteStorage.getNotes()\<close> returns.
\<close>

definition fetch_failed :: "exn \<Rightarrow> NotesState \<times> 'r World \<Rightarrow> 'r Store" where
  "fetch_failed e sw =
     (case sw of (s, w) \<Rightarrow>
        let s1 = s\<lparr>error := Some (message_or e ''Failed to fetch notes''), loading := False\<rparr>
        in (case getNotes w of
              (Some localNotes, w1) \<Rightarrow> Store (s1\<lparr>notes := localNotes\<rparr>) w1
            | (None, w1) \<Rightarrow> NotArray s1 w1))"

text \<open>
  The end of the \<open>try\<close> of \<open>fetchNotes\<close> once \<open>notes\<close> is an array: the collection, the
  timestamp and the tree.
\<close>

definition fetched :: "Note list \<Rightarrow> NotesState \<times> 'r World \<Rightarrow> 'r Store" where
  "fetched ns sw =
     (case sw of (s, w) \<Rightarrow>
        let (t, w1) = toISOString w;
            s1 = s\<lparr>notes := ns, loading := False, lastSyncAt := Some t\<rparr>
        in (case buildNoteTree (stack_limit w1) s1 of
              Inl e \<Rightarrow> fetch_failed e (s1, w1)
            | Inr s2 \<Rightarrow> Store s2 w1))"

text \<open>
  \<open>fetchNotes\<close> never reads \<open>state.notes\<close> before it assigns it, and it catches whatever
  its body throws: a rejected \<open>getAll\<close>, a RangeError of the tree rebuild, and the
  TypeError of the rebuild when the offline read was no array.
\<close>

definition fetchNotes ::
  "'r NoteRepository \<Rightarrow> NotesFilter \<Rightarrow> NotesState \<times> 'r World \<Rightarrow> 'r Store" where
  "fetchNotes repo flt sw =
     (case sw of (s0, w) \<Rightarrow>
        let s = s0\<lparr>loading := True, error := None\<rparr>
        in if isOnline s then
             (case db_getAll repo flt (remote w) of
                (Inl e, r') \<Rightarrow> fetch_failed e (s, w\<lparr>remote := r'\<rparr>)
              | (Inr ns, r') \<Rightarrow> fetched ns (s, setNotes ns (w\<lparr>remote := r'\<rparr>)))
           else
             (case getNotes w of
                (Some ns, w1) \<Rightarrow> fetched ns (s, w1)
              | (None, w1) \<Rightarrow>
                  (case toISOString w1 of
                     (t, w2) \<Rightarrow>
                       fetch_failed not_a_function
                         (s\<lparr>loading := False, lastSyncAt := Some t\<rparr>, w2))))"

text \<open>\<open>SYNC_CONFIG.RETRY_ATTEMPTS\<close> and \<open>SYNC_CONFIG.RETRY_DELAY\<close> (milliseconds).\<close>

definition RETRY_ATTEMPTS :: nat where
  "RETRY_ATTEMPTS = 3"

definition RETRY_DELAY :: nat where
  "RETRY_DELAY = 1000"

text \<open>
  The state \<open>useSync\<close> keeps besides the store: its error, its progress,
  \<open>retryCountRef.current\<close>, and the retry timer that is pending, with its delay. The
  callbacks read the store through the current state; the staleness of a React closure is
  not modelled.
\<close>

record SyncHook =
  sync_error :: "string option"
  syncProgress :: nat
  retryCount :: nat
  retryTimeout :: "nat option"

text \<open>
  \<open>scheduleRetry\<close> returns the delay it passes to \<open>setTimeout\<close>, or \<open>None\<close> when it sets
  no timer.
\<close>

definition scheduleRetry :: "SyncHook \<Rightarrow> nat option \<times> SyncHook" where
  "scheduleRetry h =
     (if retryCount h \<ge> RETRY_ATTEMPTS then (None, h)
      else let delay = RETRY_DELAY * 2 ^ retryCount h
           in (Some delay, h\<lparr>retryCount := retryCount h + 1, retryTimeout := Some delay\<rparr>))"

text \<open>
  \<open>sync\<close>: inside the \<open>try\<close> only the failed connection check throws, since
  \<open>processOfflineQueue\<close> and \<open>fetchNotes\<close> catch their own errors. The result carries the
  delay of the retry the cycle scheduled, if any. Apart from \<open>fetchNotes\<close> no step reads
  or writes \<open>state.notes\<close>, so \<open>sync\<close> runs on a store of either kind.
\<close>

definition sync ::
  "'r NoteRepository \<Rightarrow> SyncHook \<times> 'r Store \<Rightarrow> nat option \<times> SyncHook \<times> 'r Store" where
  "sync repo c =
     (case c of (h0, st0) \<Rightarrow>
        let s0 = state_of st0;
            w0 = world_of st0
        in if \<not> isOnline s0 then (None, h0, st0)
           else
             let h1 = h0\<lparr>sync_error := None, syncProgress := 0\<rparr>;
                 s1 = setSyncStatus Syncing s0;
                 (isConnected, r1) = checkConnection repo (remote w0);
                 w1 = w0\<lparr>remote := r1\<rparr>
             in if \<not> isConnected then
                  (case scheduleRetry (h1\<lparr>sync_error := Some ''No connection to database'',
                                           syncProgress := 0\<rparr>) of
                     (timer, h2) \<Rightarrow> (timer, h2, restore st0 (setSyncStatus SyncError s1, w1)))
                else
                  let (s2, w2) = (if length (offlineQueue s1) > 0
                                  then processOfflineQueue repo (s1, w1) else (s1, w1));
                      st3 = fetchNotes repo empty_filter (s2, w2);
                      s4 = setSyncStatus Synced (state_of st3);
                      h2 = h1\<lparr>syncProgress := 100, retryCount := 0\<rparr>;
                      (now, w4) = toISOString (world_of st3)
                  in (None, h2, restore st3 (s4, setLastSync now w4)))"

text \<open>\<open>retryFailedSync\<close>: the manual retry clears the pending timer and the counter, then syncs.\<close>

definition retryFailedSync ::
  "'r NoteRepository \<Rightarrow> SyncHook \<times> 'r Store \<Rightarrow> nat option \<times> SyncHook \<times> 'r Store" where
  "retryFailedSync repo c =
     (case c of (h, st) \<Rightarrow> sync repo (h\<lparr>retryTimeout := None, retryCount := 0\<rparr>, st))"

text \<open>
  \<open>n\<close> sync cycles one after the other (each started by the retry timer, the periodic
  timer or a caller), with the retry each of them scheduled.
\<close>

fun sync_cycles ::
  "nat \<Rightarrow> 'r NoteRepository \<Rightarrow> SyncHook \<times> 'r Store
     \<Rightarrow> nat option list \<times> SyncHook \<times> 'r Store" where
  "sync_cycles 0 repo c = ([], c)"
| "sync_cycles (Suc n) repo c =
     (case sync repo c of
        (timer, c') \<Rightarrow> (case sync_cycles n repo c' of (timers, c'') \<Rightarrow> (timer # timers, c'')))"

section \<open>Concrete repositories and worlds\<close>

text \<open>
  A repository over a log of the calls it received (latest last). \<open>create\<close> and \<open>update\<close>
  answer with a fixed row; \<open>delete\<close> rejects the ids in \<open>bad\<close>; the connection check
  answers \<open>up\<close>.
\<close>

definition remote_row :: Note where
  "remote_row = \<lparr>note_id = ''r1'', title = ''remote'', content = [], summary = None,
     created_at = ''t'', updated_at = ''t'', parent_id = None, position = 0,
     is_archived = False, is_favorite = False, tags = [], word_count = 0, character_count = 0,
     estimated_read_time = 0, last_sync_at = None, sync_status = Synced, version = 1,
     metadata = empty_metadata\<rparr>"

definition log_repo :: "string list \<Rightarrow> bool \<Rightarrow> string list NoteRepository" where
  "log_repo bad up =
     \<lparr>db_getAll = (\<lambda>flt r. (Inr [], r @ [''getAll''])),
      db_create = (\<lambda>inp r. (Inr remote_row, r @ [''create '' @ c_title inp])),
      db_update = (\<lambda>inp r. (Inr remote_row, r @ [''update '' @ u_id inp])),
      db_delete = (\<lambda>i r. (if i \<in> set bad then Inl (Error ''rejected'') else Inr (),
                            r @ [''delete '' @ i])),
      checkConnection = (\<lambda>r. (up, r))\<rparr>"

definition world0 :: "string list World" where
  "world0 = \<lparr>remote = [], ids = (\<lambda>k. replicate (Suc k) CHR ''i''), ids_used = 0,
     times = (\<lambda>k. replicate (Suc k) CHR ''t''), times_used = 0, ls_available = True,
     ls_notes = None, ls_offline_queue = None, ls_last_sync = None,
     ls_reads = (\<lambda>k. None), ls_reads_used = 0, stack_limit = 100\<rparr>"

definition offline_state :: NotesState where
  "offline_state = initial_state\<lparr>isOnline := False\<rparr>"

definition hook0 :: SyncHook where
  "hook0 = \<lparr>sync_error = None, syncProgress = 0, retryCount = 0, retryTimeout = None\<rparr>"

definition mk_note :: "string \<Rightarrow> string option \<Rightarrow> int \<Rightarrow> bool \<Rightarrow> Note" where
  "mk_note i p pos arch = remote_row\<lparr>note_id := i, title := i, parent_id := p, position := pos,
     is_archived := arch\<rparr>"

definition delete_op :: "string \<Rightarrow> OfflineOperation" where
  "delete_op i = \<lparr>op_id = ''op '' @ i, operation = Delete i, timestamp = ''t''\<rparr>"

definition create_input :: "string \<Rightarrow> string option \<Rightarrow> CreateNoteInput" where
  "create_input ti p = \<lparr>c_title = ti, c_content = None, c_parent_id = p, c_position = None,
     c_tags = None, c_metadata = None\<rparr>"

definition update_input :: "string \<Rightarrow> UpdateNoteInput" where
  "update_input i = \<lparr>u_id = i, u_title = Some ''renamed'', u_content = None, u_parent_id = None,
     u_position = None, u_is_archived = None, u_is_favorite = None, u_tags = None,
     u_metadata = None\<rparr>"

definition queue_xy :: NotesState where
  "queue_xy = initial_state\<lparr>offlineQueue := [delete_op ''x'', delete_op ''y'']\<rparr>"

definition two_notes :: NotesState where
  "two_notes = initial_state\<lparr>notes := [mk_note ''a'' None 0 False, mk_note ''b'' (Some ''a'') 0 False],
     selectedNoteId := Some ''a''\<rparr>"

definition node_b :: NoteTree where
  "node_b = NoteTree ''b'' ''b'' (Some ''a'') 0 False [] 1 []"

definition node_a :: NoteTree where
  "node_a = NoteTree ''a'' ''a'' None 0 False [node_b] 0 []"

definition archived_root :: NotesState where
  "archived_root = initial_state\<lparr>notes := [mk_note ''a'' None 0 True]\<rparr>"

definition orphan :: NotesState where
  "orphan = initial_state\<lparr>notes := [mk_note ''o'' (Some ''gone'') 0 False]\<rparr>"

definition orphan_beside_root :: NotesState where
  "orphan_beside_root = initial_state\<lparr>notes :=
     [mk_note ''o'' (Some ''gone'') 0 False, mk_note ''r'' None 1 False]\<rparr>"

section \<open>Properties of the offline queue\<close>

lemma drain_loop_Cons:
  "drain_loop repo (opn # ops) r =
     (fst (apply_operation repo opn r) # fst (drain_loop repo ops (snd (apply_operation repo opn r))),
      snd (drain_loop repo ops (snd (apply_operation repo opn r))))"
  by (simp split: prod.splits sum.splits)

lemma drain_loop_length: "length (fst (drain_loop repo ops r)) = length ops"
  by (induction ops arbitrary: r) (simp_all add: drain_loop_Cons del: drain_loop.simps(2))

lemma drain_loop_remote:
  "snd (drain_loop repo ops r) = foldl (\<lambda>r opn. snd (apply_operation repo opn r)) r ops"
  by (induction ops arbitrary: r) (simp_all add: drain_loop_Cons del: drain_loop.simps(2))

lemma drain_loop_outcome:
  "i < length ops \<Longrightarrow>
     fst (drain_loop repo ops r) ! i =
       fst (apply_operation repo (ops ! i)
              (foldl (\<lambda>r opn. snd (apply_operation repo opn r)) r (take i ops)))"
proof (induction ops arbitrary: r i)
  case Nil
  then show ?case by simp
next
  case (Cons a ops)
  show ?case
  proof (cases i)
    case 0
    then show ?thesis by (simp add: drain_loop_Cons del: drain_loop.simps(2))
  next
    case (Suc j)
    with Cons.prems have "j < length ops" by simp
    from Cons.IH[OF this] Suc show ?thesis
      by (simp add: drain_loop_Cons del: drain_loop.simps(2))
  qed
qed

lemma processOfflineQueue_queue: "offlineQueue (fst (processOfflineQueue repo (s, w))) = []"
  by (simp add: processOfflineQueue_def clearOfflineQueue_def)

lemma processOfflineQueue_remote:
  "remote (snd (processOfflineQueue repo (s, w))) = snd (drain_loop repo (offlineQueue s) (remote w))"
  by (simp add: processOfflineQueue_def clearOfflineQueue_def setOfflineQueue_def)

lemma processOfflineQueue_notes: "notes (fst (processOfflineQueue repo (s, w))) = notes s"
  by (simp add: processOfflineQueue_def clearOfflineQueue_def)

text \<open>
  C1, as the code has it. A drain pass attempts every operation of the queue exactly once
  and in queue order: the outcome at position \<open>i\<close> is that of the call for the \<open>i\<close>-th
  operation on the remote state the first \<open>i\<close> calls left, whether those were accepted or
  rejected, so a rejection does not stop the pass. An operation whose call succeeded is
  not in the queue after the pass.
\<close>

theorem processOfflineQueue_attempts_every_operation:
  "processOfflineQueue repo (s, w) = (s', w') \<Longrightarrow>
     length (fst (drain_loop repo (offlineQueue s) (remote w))) = length (offlineQueue s)
   \<and> (\<forall>i < length (offlineQueue s).
         fst (drain_loop repo (offlineQueue s) (remote w)) ! i =
           fst (apply_operation repo (offlineQueue s ! i)
                  (foldl (\<lambda>r opn. snd (apply_operation repo opn r)) (remote w)
                     (take i (offlineQueue s)))))
   \<and> remote w' = foldl (\<lambda>r opn. snd (apply_operation repo opn r)) (remote w) (offlineQueue s)
   \<and> (\<forall>i < length (offlineQueue s).
         \<not> isl (fst (drain_loop repo (offlineQueue s) (remote w)) ! i)
           \<longrightarrow> offlineQueue s ! i \<notin> set (offlineQueue s'))"
proof -
  assume a: "processOfflineQueue repo (s, w) = (s', w')"
  have q: "offlineQueue s' = []"
    using processOfflineQueue_queue[of repo s w] a by simp
  have r: "remote w' = snd (drain_loop repo (offlineQueue s) (remote w))"
    using processOfflineQueue_remote[of repo s w] a by simp
  show ?thesis
    using q r by (simp add: drain_loop_length drain_loop_remote drain_loop_outcome)
qed

theorem processOfflineQueue_attempts_every_operation_witness:
  "fst (drain_loop (log_repo [''x''] True) (offlineQueue queue_xy) (remote world0)) ! 1 = Inr ()
   \<and> remote (snd (processOfflineQueue (log_repo [''x''] True) (queue_xy, world0)))
       = [''delete x'', ''delete y'']
   \<and> offlineQueue queue_xy ! 1
       \<notin> set (offlineQueue (fst (processOfflineQueue (log_repo [''x''] True) (queue_xy, world0))))"
proof -
  let ?R = "log_repo [''x''] True"
  let ?res = "processOfflineQueue ?R (queue_xy, world0)"
  have h: "?res = (fst ?res, snd ?res)" by simp
  have len: "(1::nat) < length (offlineQueue queue_xy)"
    by (simp add: queue_xy_def)
  have out: "fst (drain_loop ?R (offlineQueue queue_xy) (remote world0)) ! 1 = Inr ()"
    by (simp add: queue_xy_def world0_def apply_operation_def log_repo_def delete_op_def)
  have fold: "foldl (\<lambda>r opn. snd (apply_operation ?R opn r)) (remote world0) (offlineQueue queue_xy)
                = [''delete x'', ''delete y'']"
    by (simp add: queue_xy_def world0_def apply_operation_def log_repo_def delete_op_def)
  note inst = processOfflineQueue_attempts_every_operation[OF h]
  from inst have rem: "remote (snd ?res) = [''delete x'', ''delete y'']"
    unfolding fold by blast
  from inst len out have gone: "offlineQueue queue_xy ! 1 \<notin> set (offlineQueue (fst ?res))"
    by (metis isl_def sum.distinct(1) Inl_Inr_False)
  show ?thesis
    by (intro conjI out rem gone)
qed

text \<open>
  C1 as stated fails. With a queue of two deletes of which the repository rejects the
  first, the pass still calls the repository for the second (the remote log holds both
  calls), and the rejected operation is not retained: the queue is empty afterwards.
\<close>

theorem processOfflineQueue_rejected_not_retained_counterexample:
  "fst (apply_operation (log_repo [''x''] True) (delete_op ''x'') (remote world0))
     = Inl (Error ''rejected'')
   \<and> offlineQueue queue_xy = [delete_op ''x'', delete_op ''y'']
   \<and> remote (snd (processOfflineQueue (log_repo [''x''] True) (queue_xy, world0)))
       = [''delete x'', ''delete y'']
   \<and> offlineQueue (fst (processOfflineQueue (log_repo [''x''] True) (queue_xy, world0))) = []"
  by (simp add: processOfflineQueue_def clearOfflineQueue_def setOfflineQueue_def
      apply_operation_def log_repo_def delete_op_def world0_def initial_state_def queue_xy_def)

text \<open>
  C8. Draining an empty offline queue is a no-op: when the queue has length 0,
  \<open>processOfflineQueue\<close> returns the store's state and the whole world (remote state and
  localStorage included) as they were. The repository is arbitrary and its remote state
  is returned as it was, so no repository call is made.
\<close>

theorem processOfflineQueue_empty_noop:
  "length (offlineQueue s) = 0 \<Longrightarrow> processOfflineQueue repo (s, w) = (s, w)"
  by (simp add: processOfflineQueue_def)

theorem processOfflineQueue_empty_noop_witness:
  "length (offlineQueue initial_state) = 0
   \<and> processOfflineQueue (log_repo [] True) (initial_state, world0) = (initial_state, world0)"
proof -
  have h: "length (offlineQueue initial_state) = 0"
    by (simp add: initial_state_def)
  from processOfflineQueue_empty_noop[OF h] h show ?thesis
    by blast
qed

section \<open>Frame of the tree rebuild and of enqueueing\<close>

lemma buildNoteTree_Inr:
  "buildNoteTree k s = Inr s' \<Longrightarrow> \<exists>tree. buildTree k (notes s) = Inr tree \<and> s' = s\<lparr>noteTree := tree\<rparr>"
  by (auto simp: buildNoteTree_def split: sum.splits)

lemma buildNoteTree_frame:
  "buildNoteTree k s = Inr s' \<Longrightarrow>
     notes s' = notes s \<and> offlineQueue s' = offlineQueue s \<and> isOnline s' = isOnline s
     \<and> selectedNoteId s' = selectedNoteId s"
  by (auto dest: buildNoteTree_Inr)

lemma create_offline_state:
  "\<exists>opn. operation opn = Create inp \<and>
      fst (snd (create_offline inp (s, w))) = s\<lparr>offlineQueue := offlineQueue s @ [opn]\<rparr>"
  apply (simp add: create_offline_def addToOfflineQueue_def Let_def case_prod_beta)
  apply (intro exI conjI)
   prefer 2
   apply (rule refl)
  apply simp
  done

lemma find_None_list_ex: "(find p xs = None) = (\<not> list_ex p xs)"
  by (induction xs) auto

lemma find_Some_list_ex: "find p xs = Some x \<Longrightarrow> list_ex p xs"
  by (induction xs) (auto split: if_splits)

lemma update_offline_state:
  "fst (snd (update_offline inp (s, w))) =
     (if list_ex (\<lambda>n. note_id n = u_id inp) (notes s)
      then s\<lparr>offlineQueue := offlineQueue s @
             [\<lparr>op_id = fst (generateId (snd (toISOString w))), operation = Update inp,
               timestamp = fst (toISOString (snd (generateId (snd (toISOString w)))))\<rparr>]\<rparr>
      else s)"
  by (auto simp: update_offline_def addToOfflineQueue_def Let_def find_None_list_ex
      split: prod.splits option.splits)

section \<open>Actions issued offline\<close>

lemma createNote_offline:
  assumes "\<not> isOnline s"
  shows "\<not> isOnline (fst (snd (createNote repo inp (s, w))))"
    and "length (offlineQueue (fst (snd (createNote repo inp (s, w))))) = length (offlineQueue s) + 1"
proof -
  obtain n s1 w1 where c: "create_offline inp (s\<lparr>loading := True, error := None\<rparr>, w) = (n, s1, w1)"
    by (metis prod_cases3)
  from create_offline_state[of inp "s\<lparr>loading := True, error := None\<rparr>" w] c
  obtain opn where s1: "s1 = s\<lparr>loading := True, error := None, offlineQueue := offlineQueue s @ [opn]\<rparr>"
    by auto
  show "\<not> isOnline (fst (snd (createNote repo inp (s, w))))"
    using assms c s1
    by (auto simp: createNote_def Let_def split: sum.splits dest!: buildNoteTree_frame)
  show "length (offlineQueue (fst (snd (createNote repo inp (s, w))))) = length (offlineQueue s) + 1"
    using assms c s1
    by (auto simp: createNote_def Let_def split: sum.splits dest!: buildNoteTree_frame)
qed

lemma deleteNote_offline:
  assumes "\<not> isOnline s"
  shows "\<not> isOnline (fst (snd (deleteNote repo i (s, w))))"
    and "length (offlineQueue (fst (snd (deleteNote repo i (s, w))))) = length (offlineQueue s) + 1"
  using assms
  by (auto simp: deleteNote_def addToOfflineQueue_def Let_def split: sum.splits prod.splits
      dest!: buildNoteTree_frame)

lemma updateNote_offline:
  assumes "\<not> isOnline s"
  shows "\<not> isOnline (fst (snd (updateNote repo inp (s, w))))"
    and "length (offlineQueue (fst (snd (updateNote repo inp (s, w))))) =
           length (offlineQueue s) + (if enqueues (UpdateNote inp) s then 1 else 0)"
proof -
  obtain res s1 w1 where u: "update_offline inp (s, w) = (res, s1, w1)"
    by (metis prod_cases3)
  have s1: "s1 = fst (snd (update_offline inp (s, w)))" using u by simp
  have r: "isl res \<longleftrightarrow> \<not> list_ex (\<lambda>n. note_id n = u_id inp) (notes s)"
    using u by (auto simp: update_offline_def Let_def find_None_list_ex
        split: prod.splits option.splits dest: find_Some_list_ex)
  show "\<not> isOnline (fst (snd (updateNote repo inp (s, w))))"
    using assms u s1 unfolding update_offline_state
    by (auto simp: updateNote_def Let_def split: sum.splits option.splits)
  show "length (offlineQueue (fst (snd (updateNote repo inp (s, w))))) =
           length (offlineQueue s) + (if enqueues (UpdateNote inp) s then 1 else 0)"
    using assms u s1 r unfolding update_offline_state
    by (auto simp: updateNote_def Let_def split: sum.splits option.splits)
qed

lemma updateNote_offline_missing:
  "\<not> isOnline s \<Longrightarrow> \<not> list_ex (\<lambda>n. note_id n = u_id inp) (notes s) \<Longrightarrow>
     updateNote repo inp (s, w) = (None, s\<lparr>error := Some ''Note not found''\<rparr>, w)"
  by (simp add: updateNote_def update_offline_def find_None_list_ex[symmetric])

lemma run_action_offline:
  assumes "\<not> isOnline s"
  shows "\<not> isOnline (fst (run_action repo a (s, w)))"
    and "length (offlineQueue (fst (run_action repo a (s, w)))) =
           length (offlineQueue s) + (if enqueues a s then 1 else 0)"
  using assms createNote_offline[of s repo _ w] deleteNote_offline[of s repo _ w]
    updateNote_offline[of s repo _ w]
  by (cases a; simp)+

lemma run_actions_offline:
  "\<not> isOnline (fst sw) \<Longrightarrow>
     \<not> isOnline (fst (run_actions repo as sw))
     \<and> length (offlineQueue (fst (run_actions repo as sw))) =
         length (offlineQueue (fst sw)) + enqueued repo as sw"
proof (induction as arbitrary: sw)
  case Nil
  then show ?case by simp
next
  case (Cons a as)
  obtain s w where sw: "sw = (s, w)" by (cases sw)
  with Cons.prems have off: "\<not> isOnline s" by simp
  note step = run_action_offline[OF off, of repo a w]
  from Cons.IH[of "run_action repo a (s, w)"] step sw show ?case by simp
qed

lemma enqueued_le: "enqueued repo as sw \<le> length as"
proof (induction as arbitrary: sw)
  case Nil
  then show ?case by simp
next
  case (Cons a as)
  from Cons.IH[of "run_action repo a sw"] show ?case by simp
qed

text \<open>
  C2, as the code has it. While offline, every create, every delete and every update whose
  id is in the collection when it is issued appends one operation to the queue; an update
  of an id that is not in the collection throws \<open>Note not found\<close> before it enqueues
  anything. So after a sequence of actions the queue has grown by the number of those
  actions, which is at most the number of actions issued. Draining the queue, against any
  repository, leaves it with length 0 and leaves the note collection, and with it every
  \<open>sync_status\<close>, as it was.
\<close>

theorem offline_queue_length_and_drain:
  "\<not> isOnline s \<Longrightarrow>
     length (offlineQueue (fst (run_actions repo as (s, w)))) =
       length (offlineQueue s) + enqueued repo as (s, w)
   \<and> enqueued repo as (s, w) \<le> length as
   \<and> length (offlineQueue (fst (processOfflineQueue repo' (run_actions repo as (s, w))))) = 0
   \<and> notes (fst (processOfflineQueue repo' (run_actions repo as (s, w)))) =
       notes (fst (run_actions repo as (s, w)))"
proof -
  assume off: "\<not> isOnline s"
  obtain s1 w1 where r: "run_actions repo as (s, w) = (s1, w1)"
    by (cases "run_actions repo as (s, w)")
  from run_actions_offline[of "(s, w)" repo as] off
  have len: "length (offlineQueue (fst (run_actions repo as (s, w)))) =
               length (offlineQueue s) + enqueued repo as (s, w)"
    by simp
  show ?thesis
    unfolding r using len[unfolded r] enqueued_le[of repo as "(s, w)"]
      processOfflineQueue_queue[of repo' s1 w1] processOfflineQueue_notes[of repo' s1 w1]
    by simp
qed

theorem offline_queue_length_and_drain_witness:
  "\<not> isOnline offline_state
   \<and> length (offlineQueue (fst (run_actions (log_repo [] True)
         [CreateNote (create_input ''N1'' None), DeleteNote ''zz''] (offline_state, world0)))) = 2
   \<and> length (offlineQueue (fst (processOfflineQueue (log_repo [] True)
         (run_actions (log_repo [] True)
            [CreateNote (create_input ''N1'' None), DeleteNote ''zz''] (offline_state, world0))))) = 0"
proof -
  let ?R = "log_repo [] True"
  let ?as = "[CreateNote (create_input ''N1'' None), DeleteNote ''zz'']"
  have off: "\<not> isOnline offline_state"
    by (simp add: offline_state_def)
  have q0: "length (offlineQueue offline_state) = 0"
    by (simp add: offline_state_def initial_state_def)
  have e: "enqueued ?R ?as (offline_state, world0) = 2"
    by simp
  note inst = offline_queue_length_and_drain[OF off, of ?R ?as world0 ?R]
  from inst have a: "length (offlineQueue (fst (run_actions ?R ?as (offline_state, world0)))) = 2"
    unfolding q0 e by simp
  from inst have b: "length (offlineQueue (fst (processOfflineQueue ?R
                      (run_actions ?R ?as (offline_state, world0))))) = 0"
    by blast
  show ?thesis
    by (intro conjI off a b)
qed

text \<open>
  C2 as stated fails twice. An update of an id that is not in the collection is a mutation
  issued offline and leaves the queue empty; and a note created offline still has
  \<open>sync_status\<close> \<open>pending\<close> after the queue was drained against a repository that accepts
  every call.
\<close>

theorem offline_queue_counterexample:
  "length (offlineQueue (fst (run_actions (log_repo [] True) [UpdateNote (update_input ''nope'')]
             (offline_state, world0)))) = 0
   \<and> length (offlineQueue (fst (run_actions (log_repo [] True)
             [CreateNote (create_input ''N1'' None)] (offline_state, world0)))) = 1
   \<and> length (offlineQueue (fst (processOfflineQueue (log_repo [] True)
             (run_actions (log_repo [] True) [CreateNote (create_input ''N1'' None)]
                (offline_state, world0))))) = 0
   \<and> map sync_status (notes (fst (processOfflineQueue (log_repo [] True)
             (run_actions (log_repo [] True) [CreateNote (create_input ''N1'' None)]
                (offline_state, world0))))) = [Pending]"
  by code_simp

section \<open>Delete\<close>

lemma deleteNote_True:
  assumes "deleteNote repo i (s, w) = (True, s', w')"
  shows "notes s' = filter (\<lambda>n. note_id n \<noteq> i) (notes s)"
    and "selectedNoteId s' = (if selectedNoteId s = Some i then None else selectedNoteId s)"
  using assms
  by (auto simp: deleteNote_def addToOfflineQueue_def Let_def
      split: sum.splits prod.splits if_splits dest!: buildNoteTree_frame)

text \<open>
  C9. Whenever \<open>deleteNote(id)\<close> returns true, online or offline, the collection afterwards
  is the old one without the notes of that id: no note with the id remains, every note
  with another id remains, and a selection that was the deleted id is reset to null.
\<close>

theorem deleteNote_true_removes_note:
  "deleteNote repo i (s, w) = (True, s', w') \<Longrightarrow>
     notes s' = filter (\<lambda>n. note_id n \<noteq> i) (notes s)
   \<and> (\<forall>n \<in> set (notes s'). note_id n \<noteq> i)
   \<and> (selectedNoteId s = Some i \<longrightarrow> selectedNoteId s' = None)
   \<and> (\<forall>n \<in> set (notes s). note_id n \<noteq> i \<longrightarrow> n \<in> set (notes s'))"
  using deleteNote_True[of repo i s w s' w'] by auto

theorem deleteNote_true_removes_note_witness:
  "fst (deleteNote (log_repo [] True) ''a'' (two_notes, world0)) = True
   \<and> map note_id (notes (fst (snd (deleteNote (log_repo [] True) ''a'' (two_notes, world0))))) = [''b'']
   \<and> selectedNoteId two_notes = Some ''a''
   \<and> selectedNoteId (fst (snd (deleteNote (log_repo [] True) ''a'' (two_notes, world0)))) = None
   \<and> fst (deleteNote (log_repo [] True) ''a'' (two_notes\<lparr>isOnline := False\<rparr>, world0)) = True
   \<and> map note_id (notes (fst (snd (deleteNote (log_repo [] True) ''a''
         (two_notes\<lparr>isOnline := False\<rparr>, world0))))) = [''b'']"
proof -
  let ?on = "deleteNote (log_repo [] True) ''a'' (two_notes, world0)"
  let ?off = "deleteNote (log_repo [] True) ''a'' (two_notes\<lparr>isOnline := False\<rparr>, world0)"
  have t1: "fst ?on = True" by code_simp
  have t2: "fst ?off = True" by code_simp
  have h1: "?on = (True, fst (snd ?on), snd (snd ?on))"
    using t1 by (metis prod.collapse)
  have h2: "?off = (True, fst (snd ?off), snd (snd ?off))"
    using t2 by (metis prod.collapse)
  have n: "map note_id (filter (\<lambda>n. note_id n \<noteq> ''a'') (notes two_notes)) = [''b'']"
    by (simp add: two_notes_def mk_note_def)
  have sel: "selectedNoteId two_notes = Some ''a''"
    by (simp add: two_notes_def)
  from deleteNote_true_removes_note[OF h1]
  have a1: "notes (fst (snd ?on)) = filter (\<lambda>n. note_id n \<noteq> ''a'') (notes two_notes)"
    and a2: "selectedNoteId two_notes = Some ''a'' \<longrightarrow> selectedNoteId (fst (snd ?on)) = None"
    by blast+
  from deleteNote_true_removes_note[OF h2]
  have b1: "notes (fst (snd ?off)) =
              filter (\<lambda>n. note_id n \<noteq> ''a'') (notes (two_notes\<lparr>isOnline := False\<rparr>))"
    by blast
  have c1: "map note_id (notes (fst (snd ?on))) = [''b'']"
    unfolding a1 by (rule n)
  have c2: "map note_id (notes (fst (snd ?off))) = [''b'']"
    unfolding b1 using n by simp
  have c3: "selectedNoteId (fst (snd ?on)) = None"
    using a2 sel by blast
  show ?thesis
    by (intro conjI t1 t2 c1 c2 c3 sel)
qed

section \<open>Reset\<close>

text \<open>
  C10. \<open>reset\<close> puts notes, selection, loading, error, search query and results, filters,
  tree, expanded-note set, sync status, offline queue, sidebar state and view mode back to
  their initial values, and leaves \<open>isOnline\<close> and \<open>lastSyncAt\<close> as they are.
\<close>

theorem reset_restores_initial_except_online_lastSync:
  "reset s = initial_state\<lparr>isOnline := isOnline s, lastSyncAt := lastSyncAt s\<rparr>"
  by (simp add: reset_def initial_state_def)

section \<open>Retry and backoff of the sync hook\<close>

lemma sync_no_connection:
  assumes "isOnline s" "\<not> fst (checkConnection repo (remote w))"
  shows "sync repo (h, Store s w) =
           (fst (scheduleRetry (h\<lparr>sync_error := Some ''No connection to database'', syncProgress := 0\<rparr>)),
            snd (scheduleRetry (h\<lparr>sync_error := Some ''No connection to database'', syncProgress := 0\<rparr>)),
            Store (s\<lparr>syncStatus := SyncError\<rparr>)
              (w\<lparr>remote := snd (checkConnection repo (remote w))\<rparr>))"
  using assms
  by (simp add: sync_def Let_def setSyncStatus_def restore_def case_prod_beta)

lemma scheduleRetry_timer:
  "fst (scheduleRetry h) =
     (if retryCount h < RETRY_ATTEMPTS then Some (RETRY_DELAY * 2 ^ retryCount h) else None)"
  by (simp add: scheduleRetry_def Let_def)

lemma upt_0_Suc_map: "[0..<Suc n] = 0 # map Suc [0..<n]"
  by (simp add: upt_conv_Cons map_Suc_upt del: upt_Suc)

lemma sync_cycles_failing:
  assumes down: "\<forall>r. \<not> fst (checkConnection repo r)"
  shows "isOnline s \<Longrightarrow>
     fst (sync_cycles n repo (h, Store s w)) =
       map (\<lambda>j. if retryCount h + j < RETRY_ATTEMPTS
                 then Some (RETRY_DELAY * 2 ^ (retryCount h + j)) else None) [0..<n]
   \<and> retryCount (fst (snd (sync_cycles n repo (h, Store s w)))) =
       (if retryCount h \<le> RETRY_ATTEMPTS then min (retryCount h + n) RETRY_ATTEMPTS else retryCount h)
   \<and> (\<exists>w'. snd (snd (sync_cycles n repo (h, Store s w))) =
              Store (s\<lparr>syncStatus := (if n = 0 then syncStatus s else SyncError)\<rparr>) w')"
proof (induction n arbitrary: h s w)
  case 0
  then show ?case by simp
next
  case (Suc n)
  let ?h1 = "snd (scheduleRetry (h\<lparr>sync_error := Some ''No connection to database'', syncProgress := 0\<rparr>))"
  let ?s1 = "s\<lparr>syncStatus := SyncError\<rparr>"
  let ?w1 = "w\<lparr>remote := snd (checkConnection repo (remote w))\<rparr>"
  have nc: "\<not> fst (checkConnection repo (remote w))"
    using down by blast
  have step: "sync repo (h, Store s w) =
      (fst (scheduleRetry (h\<lparr>sync_error := Some ''No connection to database'', syncProgress := 0\<rparr>)),
       ?h1, Store ?s1 ?w1)"
    by (rule sync_no_connection[OF Suc.prems nc])
  have on: "isOnline ?s1" using Suc.prems by simp
  have c1: "retryCount ?h1 = (if retryCount h < RETRY_ATTEMPTS then Suc (retryCount h) else retryCount h)"
    by (simp add: scheduleRetry_def Let_def)
  from Suc.IH[OF on, of ?h1 ?w1] obtain w' where
    t: "fst (sync_cycles n repo (?h1, Store ?s1 ?w1)) =
          map (\<lambda>j. if retryCount ?h1 + j < RETRY_ATTEMPTS
                    then Some (RETRY_DELAY * 2 ^ (retryCount ?h1 + j)) else None) [0..<n]"
    and r: "retryCount (fst (snd (sync_cycles n repo (?h1, Store ?s1 ?w1)))) =
          (if retryCount ?h1 \<le> RETRY_ATTEMPTS then min (retryCount ?h1 + n) RETRY_ATTEMPTS
           else retryCount ?h1)"
    and st: "snd (snd (sync_cycles n repo (?h1, Store ?s1 ?w1))) = Store ?s1 w'"
    by auto
  have timers: "fst (sync_cycles (Suc n) repo (h, Store s w)) =
       map (\<lambda>j. if retryCount h + j < RETRY_ATTEMPTS
                 then Some (RETRY_DELAY * 2 ^ (retryCount h + j)) else None) [0..<Suc n]"
    using t c1
    by (cases "retryCount h < RETRY_ATTEMPTS")
       (simp_all add: step scheduleRetry_timer upt_0_Suc_map comp_def case_prod_beta del: upt_Suc)
  have count: "retryCount (fst (snd (sync_cycles (Suc n) repo (h, Store s w)))) =
       (if retryCount h \<le> RETRY_ATTEMPTS then min (retryCount h + Suc n) RETRY_ATTEMPTS
        else retryCount h)"
    using r c1
    by (cases "retryCount h < RETRY_ATTEMPTS") (simp_all add: step case_prod_beta)
  have store: "snd (snd (sync_cycles (Suc n) repo (h, Store s w))) = Store ?s1 w'"
    using st by (simp add: step case_prod_beta)
  show ?case
    using timers count store by simp
qed

lemma sync_retryCount_from_0:
  "retryCount h = 0 \<Longrightarrow> retryCount (fst (snd (sync repo (h, st)))) \<le> 1"
  by (simp add: sync_def Let_def scheduleRetry_def RETRY_ATTEMPTS_def case_prod_beta)

text \<open>
  C7, as the code has it. \<open>scheduleRetry\<close> computes the delay from the counter before it
  increments it. So when sync cycles fail one after the other, starting with the counter
  at 0, the retry scheduled after the \<open>n\<close>-th failure has delay
  \<open>RETRY_DELAY * 2 ^ (n - 1)\<close> (the list below is indexed from 0): 1000 ms after the
  first failure, as long as \<open>n \<le> RETRY_ATTEMPTS\<close>; from the failure after that on no
  retry is scheduled, the store's sync status is \<open>error\<close>, and the offline queue and
  the note collection are as they were. A manual retry sets the counter to 0 before it syncs: if that sync fails too, its
  retry is scheduled with \<open>RETRY_DELAY * 2 ^ 0\<close>, and whatever the repository does the
  counter is at most 1 afterwards.
\<close>

theorem sync_retry_backoff:
  assumes "\<forall>r. \<not> fst (checkConnection repo r)" and "isOnline s" and "retryCount h = 0"
  shows "fst (sync_cycles n repo (h, Store s w)) =
           map (\<lambda>k. if k < RETRY_ATTEMPTS then Some (RETRY_DELAY * 2 ^ k) else None) [0..<n]
       \<and> retryCount (fst (snd (sync_cycles n repo (h, Store s w)))) = min n RETRY_ATTEMPTS
       \<and> offlineQueue (state_of (snd (snd (sync_cycles n repo (h, Store s w))))) = offlineQueue s
       \<and> syncStatus (state_of (snd (snd (sync_cycles n repo (h, Store s w))))) =
           (if n = 0 then syncStatus s else SyncError)
       \<and> (\<exists>w'. snd (snd (sync_cycles n repo (h, Store s w))) =
                  Store (s\<lparr>syncStatus := (if n = 0 then syncStatus s else SyncError)\<rparr>) w')
       \<and> fst (retryFailedSync repo (snd (sync_cycles n repo (h, Store s w)))) = Some (RETRY_DELAY * 2 ^ 0)
       \<and> retryCount (fst (snd (retryFailedSync repo' (snd (sync_cycles n repo (h, Store s w)))))) \<le> 1"
proof -
  note cyc = sync_cycles_failing[OF assms(1) assms(2), of n h w]
  let ?s' = "s\<lparr>syncStatus := (if n = 0 then syncStatus s else SyncError)\<rparr>"
  from cyc obtain h' w' where c: "snd (sync_cycles n repo (h, Store s w)) = (h', Store ?s' w')"
    by (metis prod.collapse)
  have on: "isOnline ?s'" using assms(2) by simp
  have nc: "\<not> fst (checkConnection repo (remote w'))"
    using assms(1) by blast
  have manual: "fst (retryFailedSync repo (h', Store ?s' w')) = Some (RETRY_DELAY * 2 ^ 0)"
    unfolding retryFailedSync_def
    by (simp add: sync_no_connection[OF on nc] scheduleRetry_timer RETRY_ATTEMPTS_def)
  have reset: "retryCount (fst (snd (retryFailedSync repo' (h', Store ?s' w')))) \<le> 1"
    unfolding retryFailedSync_def
    using sync_retryCount_from_0[of "h'\<lparr>retryTimeout := None, retryCount := 0\<rparr>" repo' "Store ?s' w'"]
    by simp
  have q: "offlineQueue ?s' = offlineQueue s" and st: "syncStatus ?s' = (if n = 0 then syncStatus s else SyncError)"
    by simp_all
  show ?thesis
    using cyc manual reset q st unfolding c
    by (simp add: assms(3))
qed

theorem sync_retry_backoff_witness:
  "(\<forall>r. \<not> fst (checkConnection (log_repo [] False) r))
   \<and> isOnline initial_state \<and> retryCount hook0 = 0
   \<and> fst (sync_cycles 5 (log_repo [] False) (hook0, Store initial_state world0)) =
       [Some 1000, Some 2000, Some 4000, None, None]
   \<and> retryCount (fst (snd (sync_cycles 5 (log_repo [] False) (hook0, Store initial_state world0)))) = 3
   \<and> fst (retryFailedSync (log_repo [] False)
         (snd (sync_cycles 5 (log_repo [] False) (hook0, Store initial_state world0)))) = Some 1000"
proof -
  have down: "\<forall>r. \<not> fst (checkConnection (log_repo [] False) r)"
    by (simp add: log_repo_def)
  have on: "isOnline initial_state"
    by (simp add: initial_state_def)
  have zero: "retryCount hook0 = 0"
    by (simp add: hook0_def)
  have l: "map (\<lambda>k. if k < RETRY_ATTEMPTS then Some (RETRY_DELAY * 2 ^ k) else None) [0..<5]
             = [Some 1000, Some 2000, Some 4000, None, None]"
    by code_simp
  have m: "min 5 RETRY_ATTEMPTS = 3"
    by (simp add: RETRY_ATTEMPTS_def)
  have d: "RETRY_DELAY * 2 ^ 0 = 1000"
    by (simp add: RETRY_DELAY_def)
  note inst = sync_retry_backoff[OF down on zero, of 5 world0 "log_repo [] False"]
  from inst have a: "fst (sync_cycles 5 (log_repo [] False) (hook0, Store initial_state world0)) =
       [Some 1000, Some 2000, Some 4000, None, None]"
    unfolding l by blast
  from inst have b: "retryCount (fst (snd (sync_cycles 5 (log_repo [] False)
       (hook0, Store initial_state world0)))) = 3"
    unfolding m by blast
  from inst have c: "fst (retryFailedSync (log_repo [] False)
         (snd (sync_cycles 5 (log_repo [] False) (hook0, Store initial_state world0)))) = Some 1000"
    unfolding d by blast
  show ?thesis
    by (intro conjI down on zero a b c)
qed

text \<open>
  C7 as stated fails at the first failure: the retry is scheduled with delay 1000 ms, which
  is \<open>RETRY_DELAY * 2 ^ 0\<close> and not \<open>RETRY_DELAY * 2 ^ 1\<close>.
\<close>

theorem first_retry_delay_counterexample:
  "fst (sync (log_repo [] False) (hook0, Store initial_state world0)) = Some 1000
   \<and> RETRY_DELAY * 2 ^ 1 = 2000"
  by code_simp

section \<open>Properties of the materialised tree\<close>

lemma traverse_Inr_list_all2:
  "traverse f xs = Inr ys \<Longrightarrow> list_all2 (\<lambda>x y. f x = Inr y) xs ys"
  by (induction xs arbitrary: ys) (auto split: sum.splits)

lemma traverse_total:
  "(\<And>x. x \<in> set xs \<Longrightarrow> \<exists>y. f x = Inr y) \<Longrightarrow> \<exists>ys. traverse f xs = Inr ys"
proof (induction xs)
  case Nil
  then show ?case by simp
next
  case (Cons x xs)
  from Cons.prems[of x] obtain y where y: "f x = Inr y" by auto
  from Cons.IH Cons.prems obtain ys where ys: "traverse f xs = Inr ys" by auto
  show ?case by (simp add: y ys)
qed

lemma list_all2_set2: "list_all2 P xs ys \<Longrightarrow> y \<in> set ys \<Longrightarrow> \<exists>x\<in>set xs. P x y"
  by (induction rule: list_all2_induct) auto

lemma list_all2_set1: "list_all2 P xs ys \<Longrightarrow> x \<in> set xs \<Longrightarrow> \<exists>y\<in>set ys. P x y"
  by (induction rule: list_all2_induct) auto

lemma list_all2_map_eq:
  "list_all2 (\<lambda>x y. f x = g y) xs ys \<Longrightarrow> map f xs = map g ys"
  by (induction rule: list_all2_induct) auto

lemma nodes_unfold: "nodes t = t # concat (map nodes (children t))"
  by (cases t) simp

lemma self_in_nodes: "t \<in> set (nodes t)"
  by (subst nodes_unfold) simp

lemma children_in_nodes:
  "u \<in> set (nodes t) \<Longrightarrow> c \<in> set (children u) \<Longrightarrow> c \<in> set (nodes t)"
proof (induction t)
  case (NoteTree i ti p pos a cs d pth)
  from NoteTree.prems(1) consider "u = NoteTree i ti p pos a cs d pth"
    | t' where "t' \<in> set cs" "u \<in> set (nodes t')"
    by auto
  then show ?case
  proof cases
    case 1
    with NoteTree.prems(2) have "c \<in> set cs" by simp
    then show ?thesis using self_in_nodes[of c] by auto
  next
    case 2
    from NoteTree.IH[OF 2(1) 2(2) NoteTree.prems(2)] 2(1) show ?thesis by auto
  qed
qed

lemma children_of_set:
  "c \<in> set (children_of ns i) \<longleftrightarrow> c \<in> set ns \<and> parent_id c = Some i"
  by (auto simp: children_of_def by_position_def)

lemma hops_in_set: "hops ns n d \<Longrightarrow> n \<in> set ns"
  by (induction rule: hops.induct) auto

lemma buildTreeNode_Inr:
  assumes "buildTreeNode k ns n d = Inr t"
  shows "\<exists>k'. k = Suc k' \<and> t_view t = note_view n \<and> depth t = d \<and> path t = []
           \<and> list_all2 (\<lambda>c t'. buildTreeNode k' ns c (Suc d) = Inr t')
                (children_of ns (note_id n)) (children t)"
proof (cases k)
  case 0
  with assms show ?thesis by simp
next
  case (Suc k')
  with assms show ?thesis
    by (auto simp: t_view_def note_view_def split: sum.splits dest!: traverse_Inr_list_all2)
qed

lemma buildTreeNode_children:
  assumes b: "buildTreeNode k ns n d = Inr t" and h: "hops ns n d"
  shows "list_all2 (\<lambda>c t'. (\<exists>k'. k = Suc k' \<and> buildTreeNode k' ns c (Suc d) = Inr t')
                     \<and> t_view t' = note_view c \<and> depth t' = Suc d \<and> hops ns c (Suc d))
           (children_of ns (note_id n)) (children t)"
proof -
  from buildTreeNode_Inr[OF b] obtain k' where k: "k = Suc k'"
    and cs: "list_all2 (\<lambda>c t'. buildTreeNode k' ns c (Suc d) = Inr t')
               (children_of ns (note_id n)) (children t)"
    by auto
  show ?thesis
  proof (rule list.rel_mono_strong[OF cs])
    fix c t'
    assume c: "c \<in> set (children_of ns (note_id n))" and b': "buildTreeNode k' ns c (Suc d) = Inr t'"
    from c h have "hops ns c (Suc d)"
      by (auto simp: children_of_set intro: hops_child)
    with buildTreeNode_Inr[OF b'] k b'
    show "(\<exists>k'. k = Suc k' \<and> buildTreeNode k' ns c (Suc d) = Inr t')
            \<and> t_view t' = note_view c \<and> depth t' = Suc d \<and> hops ns c (Suc d)"
      by auto
  qed
qed

lemma buildTreeNode_nodes:
  "buildTreeNode k ns n d = Inr t \<Longrightarrow> hops ns n d \<Longrightarrow> u \<in> set (nodes t) \<Longrightarrow>
     map t_view (children u) = map note_view (children_of ns (t_id u))
     \<and> (\<forall>c \<in> set (children u). depth c = Suc (depth u))
     \<and> (\<exists>m \<in> set ns. note_view m = t_view u \<and> hops ns m (depth u))"
proof (induction k arbitrary: n d t)
  case 0
  then show ?case by simp
next
  case (Suc k)
  from buildTreeNode_Inr[OF Suc.prems(1)]
  have v: "t_view t = note_view n" and dt: "depth t = d"
    by auto
  have tid: "t_id t = note_id n" using v by (simp add: t_view_def note_view_def)
  note cs = buildTreeNode_children[OF Suc.prems(1) Suc.prems(2)]
  from Suc.prems(3) consider "u = t" | t' where "t' \<in> set (children t)" "u \<in> set (nodes t')"
    by (subst (asm) nodes_unfold) auto
  then show ?case
  proof cases
    case 1
    have "list_all2 (\<lambda>c t'. note_view c = t_view t') (children_of ns (note_id n)) (children t)"
      by (rule list_all2_mono[OF cs]) simp
    then have m: "map note_view (children_of ns (note_id n)) = map t_view (children t)"
      by (rule list_all2_map_eq)
    have dc: "\<forall>c \<in> set (children u). depth c = Suc (depth u)"
      using cs 1 dt by (auto dest!: list_all2_set2)
    show ?thesis
      using m dc 1 tid v dt Suc.prems(2) hops_in_set[OF Suc.prems(2)] by auto
  next
    case 2
    from list_all2_set2[OF cs 2(1)] obtain c where
      b': "buildTreeNode k ns c (Suc d) = Inr t'" and h': "hops ns c (Suc d)"
      by auto
    from Suc.IH[OF b' h' 2(2)] show ?thesis .
  qed
qed

lemma buildTree_nodes:
  assumes b: "buildTree k ns = Inr tree" and u: "u \<in> set (all_nodes tree)"
  shows "map t_view (children u) = map note_view (children_of ns (t_id u))
     \<and> (\<forall>c \<in> set (children u). depth c = Suc (depth u))
     \<and> (\<exists>m \<in> set ns. note_view m = t_view u \<and> hops ns m (depth u))"
proof -
  from b have roots: "list_all2 (\<lambda>n t. buildTreeNode k ns n 0 = Inr t)
                        (by_position (filter is_root ns)) tree"
    unfolding buildTree_def by (rule traverse_Inr_list_all2)
  from u obtain t where t: "t \<in> set tree" and ut: "u \<in> set (nodes t)"
    by (auto simp: all_nodes_def)
  from list_all2_set2[OF roots t] obtain n where
    n: "n \<in> set ns" "is_root n" and bn: "buildTreeNode k ns n 0 = Inr t"
    by (auto simp: by_position_def)
  from n have "hops ns n 0" by (rule hops_root)
  from buildTreeNode_nodes[OF bn this ut] show ?thesis .
qed

lemma buildTree_roots:
  assumes b: "buildTree k ns = Inr tree"
  shows "map t_view tree = map note_view (by_position (filter is_root ns))"
    and "\<forall>r \<in> set tree. depth r = 0"
proof -
  from b have roots: "list_all2 (\<lambda>n t. buildTreeNode k ns n 0 = Inr t)
                        (by_position (filter is_root ns)) tree"
    unfolding buildTree_def by (rule traverse_Inr_list_all2)
  have "list_all2 (\<lambda>n t. note_view n = t_view t \<and> depth t = 0) (by_position (filter is_root ns)) tree"
    by (rule list_all2_mono[OF roots]) (auto dest!: buildTreeNode_Inr)
  then show "map t_view tree = map note_view (by_position (filter is_root ns))"
    and "\<forall>r \<in> set tree. depth r = 0"
    by (auto dest: list_all2_set2 list_all2_map_eq[of note_view t_view, OF list_all2_mono])
qed

lemma ids_nonempty: "[] \<notin> set (map note_id ns) \<Longrightarrow> m \<in> set ns \<Longrightarrow> note_id m \<noteq> []"
  by force

lemma hops_unique:
  assumes d: "distinct (map note_id ns)" and e: "[] \<notin> set (map note_id ns)"
  shows "hops ns n k \<Longrightarrow> hops ns n k' \<Longrightarrow> k = k'"
proof (induction arbitrary: k' rule: hops.induct)
  case (hops_root n)
  from hops_root.prems show ?case
  proof (cases rule: hops.cases)
    case hops_root
    then show ?thesis by simp
  next
    case (hops_child p j)
    from hops_in_set[OF hops_child(2)] have "note_id p \<noteq> []" by (rule ids_nonempty[OF e])
    with hops_child(4) \<open>is_root n\<close> show ?thesis by (simp add: is_root_def)
  qed
next
  case (hops_child p k c)
  from hops_child.prems show ?case
  proof (cases rule: hops.cases)
    case hops_root
    from hops_in_set[OF hops_child.hyps(1)] have "note_id p \<noteq> []" by (rule ids_nonempty[OF e])
    with hops_child.hyps(3) hops_root(3) show ?thesis by (simp add: is_root_def)
  next
    case (hops_child p' j)
    from hops_child(4) hops_child.hyps(3) have "note_id p' = note_id p" by simp
    moreover have "p' \<in> set ns" "p \<in> set ns"
      using hops_in_set[OF hops_child(2)] hops_in_set[OF hops_child.hyps(1)] by auto
    ultimately have "p' = p" using d by (auto simp: distinct_map dest: inj_onD)
    with hops_child.IH[of j] hops_child(1,2) show ?thesis by simp
  qed
qed

lemma hops_levels: "hops ns n d \<Longrightarrow> j \<le> d \<Longrightarrow> \<exists>m \<in> set ns. hops ns m j"
proof (induction arbitrary: j rule: hops.induct)
  case (hops_root n)
  then show ?case by (auto intro: hops.hops_root)
next
  case (hops_child p k c)
  show ?case
  proof (cases "j = Suc k")
    case True
    then show ?thesis
      using hops.hops_child[OF hops_child.hyps] hops_child.hyps(2) by auto
  next
    case False
    with hops_child.prems have "j \<le> k" by simp
    from hops_child.IH[OF this] show ?thesis .
  qed
qed

lemma hops_bound:
  assumes d: "distinct (map note_id ns)" and e: "[] \<notin> set (map note_id ns)"
    and h: "hops ns n k"
  shows "k < length ns"
proof -
  have "\<forall>j \<in> {..k}. \<exists>m. m \<in> set ns \<and> hops ns m j"
    using hops_levels[OF h] by auto
  then obtain f where f: "\<forall>j \<in> {..k}. f j \<in> set ns \<and> hops ns (f j) j"
    by (rule bchoice[THEN exE]) 
  have inj: "inj_on f {..k}"
  proof (rule inj_onI)
    fix i j assume "i \<in> {..k}" "j \<in> {..k}" "f i = f j"
    with f have "hops ns (f i) i" "hops ns (f i) j" by (metis)+
    then show "i = j" by (rule hops_unique[OF d e])
  qed
  have "f ` {..k} \<subseteq> set ns" using f by auto
  from card_inj_on_le[OF inj this] have "card {..k} \<le> card (set ns)" by simp
  also have "\<dots> \<le> length ns" by (rule card_length)
  finally show ?thesis by simp
qed

lemma buildTreeNode_total:
  assumes d: "distinct (map note_id ns)" and e: "[] \<notin> set (map note_id ns)"
  shows "hops ns n j \<Longrightarrow> length ns \<le> k + j \<Longrightarrow> \<exists>t. buildTreeNode k ns n j = Inr t"
proof (induction k arbitrary: n j)
  case 0
  with hops_bound[OF d e 0(1)] show ?case by simp
next
  case (Suc k)
  have "\<exists>cs. traverse (\<lambda>child. buildTreeNode k ns child (j + 1)) (children_of ns (note_id n)) = Inr cs"
  proof (rule traverse_total)
    fix c assume "c \<in> set (children_of ns (note_id n))"
    with Suc.prems(1) have "hops ns c (Suc j)"
      by (auto simp: children_of_set intro: hops_child)
    from Suc.IH[OF this] Suc.prems(2) show "\<exists>y. buildTreeNode k ns c (j + 1) = Inr y"
      by simp
  qed
  then show ?case by auto
qed

lemma buildTree_total:
  assumes d: "distinct (map note_id ns)" and e: "[] \<notin> set (map note_id ns)"
    and k: "length ns \<le> k"
  shows "\<exists>tree. buildTree k ns = Inr tree"
  unfolding buildTree_def
proof (rule traverse_total)
  fix n assume "n \<in> set (by_position (filter is_root ns))"
  then have "hops ns n 0" by (auto simp: by_position_def intro: hops_root)
  from buildTreeNode_total[OF d e this] k show "\<exists>y. buildTreeNode k ns n 0 = Inr y"
    by simp
qed

lemma hops_in_tree:
  assumes b: "buildTree k ns = Inr tree"
  shows "hops ns n d \<Longrightarrow> \<exists>u \<in> set (all_nodes tree). t_view u = note_view n \<and> depth u = d"
proof (induction rule: hops.induct)
  case (hops_root n)
  from b have roots: "list_all2 (\<lambda>n t. buildTreeNode k ns n 0 = Inr t)
                        (by_position (filter is_root ns)) tree"
    unfolding buildTree_def by (rule traverse_Inr_list_all2)
  from hops_root have "n \<in> set (by_position (filter is_root ns))"
    by (simp add: by_position_def)
  from list_all2_set1[OF roots this] obtain t where t: "t \<in> set tree" "buildTreeNode k ns n 0 = Inr t"
    by auto
  from buildTreeNode_Inr[OF t(2)] have "t_view t = note_view n" "depth t = 0" by auto
  moreover have "t \<in> set (all_nodes tree)"
    using t(1) self_in_nodes[of t] by (auto simp: all_nodes_def)
  ultimately show ?case by auto
next
  case (hops_child p j c)
  from hops_child.IH obtain u where u: "u \<in> set (all_nodes tree)" "t_view u = note_view p" "depth u = j"
    by auto
  from buildTree_nodes[OF b u(1)]
  have cs: "map t_view (children u) = map note_view (children_of ns (t_id u))"
    and dp: "\<forall>c \<in> set (children u). depth c = Suc (depth u)"
    by auto
  have "t_id u = note_id p" using u(2) by (simp add: t_view_def note_view_def)
  with hops_child.hyps(2,3) have "c \<in> set (children_of ns (t_id u))"
    by (simp add: children_of_set)
  then have "note_view c \<in> set (map t_view (children u))"
    unfolding cs by simp
  then obtain c' where c': "c' \<in> set (children u)" "t_view c' = note_view c"
    by auto
  from u(1) obtain t where t: "t \<in> set tree" "u \<in> set (nodes t)"
    by (auto simp: all_nodes_def)
  from children_in_nodes[OF t(2) c'(1)] t(1) have "c' \<in> set (all_nodes tree)"
    by (auto simp: all_nodes_def)
  with c' dp u(3) show ?case by auto
qed

lemma views_position: "map t_view ts = map note_view ns \<Longrightarrow> map t_position ts = map position ns"
proof (induction ts arbitrary: ns)
  case Nil
  then show ?case by simp
next
  case (Cons t ts)
  then show ?case by (cases ns) (auto simp: t_view_def note_view_def)
qed

text \<open>
  C6. After a rebuild of the tree, the roots of the tree are the notes without a parent,
  ascending by position and at depth 0; the children of every node of the tree are exactly
  the notes whose \<open>parent_id\<close> is the node's id, ascending by position, each one level
  deeper than the node; and the depth of a node is the number of ancestor hops of its note
  to a root. When the ids of the collection are distinct and not empty, that number is
  unique, and the rebuild succeeds once the stack admits as many nested calls as there
  are notes. (A rebuild that exhausts the stack throws and sets no tree.)
\<close>

theorem buildNoteTree_children_and_depth:
  "(buildNoteTree k s = Inr s' \<longrightarrow>
       map t_view (noteTree s') = map note_view (sort_key position (filter is_root (notes s)))
     \<and> (\<forall>r \<in> set (noteTree s'). depth r = 0)
     \<and> (\<forall>u \<in> set (all_nodes (noteTree s')).
           map t_view (children u) =
             map note_view (sort_key position (filter (\<lambda>n. parent_id n = Some (t_id u)) (notes s)))
         \<and> sorted (map t_position (children u))
         \<and> (\<forall>c \<in> set (children u). depth c = depth u + 1)
         \<and> (\<exists>n \<in> set (notes s). note_view n = t_view u \<and> hops (notes s) n (depth u))))
   \<and> (distinct (map note_id (notes s)) \<and> [] \<notin> set (map note_id (notes s)) \<longrightarrow>
         (\<forall>n d d'. hops (notes s) n d \<longrightarrow> hops (notes s) n d' \<longrightarrow> d = d')
       \<and> (length (notes s) \<le> k \<longrightarrow> (\<exists>s'. buildNoteTree k s = Inr s')))"
proof (intro conjI impI)
  assume b: "buildNoteTree k s = Inr s'"
  from buildNoteTree_Inr[OF b] have t: "buildTree k (notes s) = Inr (noteTree s')"
    by auto
  from buildTree_roots[OF t]
  show "map t_view (noteTree s') = map note_view (sort_key position (filter is_root (notes s)))"
    and "\<forall>r \<in> set (noteTree s'). depth r = 0"
    by (simp_all add: by_position_def)
  show "\<forall>u \<in> set (all_nodes (noteTree s')).
           map t_view (children u) =
             map note_view (sort_key position (filter (\<lambda>n. parent_id n = Some (t_id u)) (notes s)))
         \<and> sorted (map t_position (children u))
         \<and> (\<forall>c \<in> set (children u). depth c = depth u + 1)
         \<and> (\<exists>n \<in> set (notes s). note_view n = t_view u \<and> hops (notes s) n (depth u))"
  proof
    fix u assume u: "u \<in> set (all_nodes (noteTree s'))"
    note p = buildTree_nodes[OF t u]
    from p have v: "map t_view (children u) =
             map note_view (sort_key position (filter (\<lambda>n. parent_id n = Some (t_id u)) (notes s)))"
      by (simp add: children_of_def by_position_def)
    from views_position[OF v] have "sorted (map t_position (children u))"
      by simp
    with p v show "map t_view (children u) =
             map note_view (sort_key position (filter (\<lambda>n. parent_id n = Some (t_id u)) (notes s)))
         \<and> sorted (map t_position (children u))
         \<and> (\<forall>c \<in> set (children u). depth c = depth u + 1)
         \<and> (\<exists>n \<in> set (notes s). note_view n = t_view u \<and> hops (notes s) n (depth u))"
      by simp
  qed
next
  assume wf: "distinct (map note_id (notes s)) \<and> [] \<notin> set (map note_id (notes s))"
  then show "\<forall>n d d'. hops (notes s) n d \<longrightarrow> hops (notes s) n d' \<longrightarrow> d = d'"
    using hops_unique[of "notes s"] by blast
next
  assume wf: "distinct (map note_id (notes s)) \<and> [] \<notin> set (map note_id (notes s))"
    and k: "length (notes s) \<le> k"
  from wf k buildTree_total[of "notes s" k] obtain tree where "buildTree k (notes s) = Inr tree"
    by blast
  then show "\<exists>s'. buildNoteTree k s = Inr s'"
    by (simp add: buildNoteTree_def)
qed

theorem buildNoteTree_children_and_depth_witness:
  "buildNoteTree 5 two_notes = Inr (two_notes\<lparr>noteTree := [node_a]\<rparr>)
   \<and> depth node_a = 0
   \<and> map t_view (children node_a) =
        map note_view (sort_key position (filter (\<lambda>n. parent_id n = Some (t_id node_a)) (notes two_notes)))
   \<and> depth node_b = depth node_a + 1
   \<and> (\<exists>n \<in> set (notes two_notes). note_view n = t_view node_b \<and> hops (notes two_notes) n (depth node_b))
   \<and> (\<exists>s'. buildNoteTree 2 two_notes = Inr s')"
proof -
  let ?s' = "two_notes\<lparr>noteTree := [node_a]\<rparr>"
  have h: "buildNoteTree 5 two_notes = Inr ?s'"
    by code_simp
  have ra: "node_a \<in> set (noteTree ?s')"
    by simp
  have ua: "node_a \<in> set (all_nodes (noteTree ?s'))"
    by (simp add: all_nodes_def node_a_def)
  have ub: "node_b \<in> set (all_nodes (noteTree ?s'))"
    by (simp add: all_nodes_def node_a_def node_b_def)
  have cb: "node_b \<in> set (children node_a)"
    by (simp add: node_a_def)
  have wf: "distinct (map note_id (notes two_notes)) \<and> [] \<notin> set (map note_id (notes two_notes))"
    by (simp add: two_notes_def mk_note_def)
  have len: "length (notes two_notes) \<le> 2"
    by (simp add: two_notes_def)
  note inst = buildNoteTree_children_and_depth[of 5 two_notes ?s']
  from inst h ra have a: "depth node_a = 0"
    by blast
  from inst h ua have b: "map t_view (children node_a) =
        map note_view (sort_key position (filter (\<lambda>n. parent_id n = Some (t_id node_a)) (notes two_notes)))"
    by blast
  from inst h ua cb have c: "depth node_b = depth node_a + 1"
    by blast
  from inst h ub
  have d: "\<exists>n \<in> set (notes two_notes). note_view n = t_view node_b \<and> hops (notes two_notes) n (depth node_b)"
    by blast
  from buildNoteTree_children_and_depth[of 2 two_notes ?s'] wf len
  have e: "\<exists>s'. buildNoteTree 2 two_notes = Inr s'"
    by blast
  show ?thesis
    by (intro conjI h a b c d e)
qed

lemma hops_cases_parent:
  "hops ns n d \<Longrightarrow> parent_id n = Some p \<Longrightarrow> p \<noteq> [] \<Longrightarrow> p \<in> note_id ` set ns"
  by (erule hops.cases) (auto simp: is_root_def dest: hops_in_set)

text \<open>
  C4, as the code has it. The roots of the tree are exactly the notes whose \<open>parent_id\<close>
  is null, undefined or empty, ascending by position, and below a node come the notes whose
  \<open>parent_id\<close> is its id. So a note whose \<open>parent_id\<close> is a non-empty string that is
  the id of no note of the collection is no node of the tree, neither a root nor a
  descendant; it stays in the flat collection.
\<close>

theorem orphan_is_not_in_tree:
  "buildNoteTree k s = Inr s' \<Longrightarrow> n \<in> set (notes s) \<Longrightarrow> parent_id n = Some p \<Longrightarrow> p \<noteq> []
     \<Longrightarrow> p \<notin> note_id ` set (notes s)
     \<Longrightarrow> map t_view (noteTree s') = map note_view (sort_key position (filter is_root (notes s)))
       \<and> t_view ` set (noteTree s') = note_view ` {m \<in> set (notes s). is_root m}
       \<and> \<not> is_root n
       \<and> note_view n \<notin> t_view ` set (all_nodes (noteTree s'))
       \<and> n \<in> set (notes s')"
proof -
  assume b: "buildNoteTree k s = Inr s'" and n: "n \<in> set (notes s)"
    and p: "parent_id n = Some p" "p \<noteq> []" "p \<notin> note_id ` set (notes s)"
  from buildNoteTree_Inr[OF b] have t: "buildTree k (notes s) = Inr (noteTree s')"
    and ns: "notes s' = notes s"
    by auto
  from buildTree_roots(1)[OF t]
  have roots: "map t_view (noteTree s') = map note_view (sort_key position (filter is_root (notes s)))"
    by (simp add: by_position_def)
  have "set (map t_view (noteTree s')) = set (map note_view (sort_key position (filter is_root (notes s))))"
    using roots by simp
  then have rootset: "t_view ` set (noteTree s') = note_view ` {m \<in> set (notes s). is_root m}"
    by simp
  have nr: "\<not> is_root n"
    using p(1,2) by (simp add: is_root_def)
  have "note_view n \<notin> t_view ` set (all_nodes (noteTree s'))"
  proof
    assume "note_view n \<in> t_view ` set (all_nodes (noteTree s'))"
    then obtain u where u: "u \<in> set (all_nodes (noteTree s'))" "t_view u = note_view n"
      by auto
    from buildTree_nodes[OF t u(1)] obtain m where
      m: "note_view m = t_view u" "hops (notes s) m (depth u)"
      by auto
    from m(1) u(2) p(1) have "parent_id m = Some p"
      by (simp add: note_view_def)
    from hops_cases_parent[OF m(2) this p(2)] p(3) show False
      by simp
  qed
  with n ns roots rootset nr show ?thesis by simp
qed

theorem orphan_is_not_in_tree_witness:
  "buildNoteTree 5 orphan_beside_root =
     Inr (orphan_beside_root\<lparr>noteTree := [NoteTree ''r'' ''r'' None 1 False [] 0 []]\<rparr>)
   \<and> mk_note ''o'' (Some ''gone'') 0 False \<in> set (notes orphan_beside_root)
   \<and> ''gone'' \<notin> note_id ` set (notes orphan_beside_root)
   \<and> map t_view (noteTree (orphan_beside_root\<lparr>noteTree := [NoteTree ''r'' ''r'' None 1 False [] 0 []]\<rparr>))
       = [note_view (mk_note ''r'' None 1 False)]
   \<and> note_view (mk_note ''o'' (Some ''gone'') 0 False)
        \<notin> t_view ` set (all_nodes
            (noteTree (orphan_beside_root\<lparr>noteTree := [NoteTree ''r'' ''r'' None 1 False [] 0 []]\<rparr>)))
   \<and> mk_note ''o'' (Some ''gone'') 0 False
        \<in> set (notes (orphan_beside_root\<lparr>noteTree := [NoteTree ''r'' ''r'' None 1 False [] 0 []]\<rparr>))"
proof -
  let ?o = "mk_note ''o'' (Some ''gone'') 0 False"
  let ?s' = "orphan_beside_root\<lparr>noteTree := [NoteTree ''r'' ''r'' None 1 False [] 0 []]\<rparr>"
  have h: "buildNoteTree 5 orphan_beside_root = Inr ?s'"
    by (simp add: buildNoteTree_def buildTree_def orphan_beside_root_def initial_state_def mk_note_def
        remote_row_def is_root_def by_position_def children_of_def numeral_eq_Suc)
  have n: "?o \<in> set (notes orphan_beside_root)"
    by (simp add: orphan_beside_root_def)
  have p: "parent_id ?o = Some ''gone''"
    by (simp add: mk_note_def)
  have ne: "''gone'' \<noteq> []"
    by simp
  have g: "''gone'' \<notin> note_id ` set (notes orphan_beside_root)"
    by (simp add: orphan_beside_root_def mk_note_def)
  have r: "map note_view (sort_key position (filter is_root (notes orphan_beside_root)))
             = [note_view (mk_note ''r'' None 1 False)]"
    by (simp add: orphan_beside_root_def mk_note_def is_root_def)
  note inst = orphan_is_not_in_tree[OF h n p ne g]
  from inst have a: "map t_view (noteTree ?s') = [note_view (mk_note ''r'' None 1 False)]"
    unfolding r by blast
  from inst have b: "note_view ?o \<notin> t_view ` set (all_nodes (noteTree ?s'))"
    by blast
  from inst have c: "?o \<in> set (notes ?s')"
    by blast
  show ?thesis
    by (intro conjI h n g a b c)
qed

text \<open>
  C4 as stated fails: for a collection of one note whose parent does not exist, the
  rebuilt tree is empty.
\<close>

theorem orphan_dropped_counterexample:
  "notes orphan = [mk_note ''o'' (Some ''gone'') 0 False]
   \<and> buildNoteTree 5 orphan = Inr (orphan\<lparr>noteTree := []\<rparr>)"
  by (simp add: buildNoteTree_def buildTree_def orphan_def initial_state_def mk_note_def
      remote_row_def is_root_def by_position_def children_of_def numeral_eq_Suc)

text \<open>
  C5, as the code has it. After a rebuild, the nodes of the tree are exactly the notes
  reachable from the roots through \<open>parent_id\<close>, archived or not: an archived note that
  is reachable is a node of the tree, at its depth, with the archived flag set on the
  node. The flat collection is what it was.
\<close>

theorem tree_holds_every_reachable_note:
  "buildNoteTree k s = Inr s' \<Longrightarrow>
     t_view ` set (all_nodes (noteTree s')) = note_view ` {n. \<exists>d. hops (notes s) n d}
   \<and> (\<forall>n d. hops (notes s) n d \<and> is_archived n \<longrightarrow>
         (\<exists>u \<in> set (all_nodes (noteTree s')). t_view u = note_view n \<and> depth u = d \<and> t_is_archived u))
   \<and> notes s' = notes s"
proof -
  assume b: "buildNoteTree k s = Inr s'"
  from buildNoteTree_Inr[OF b] have t: "buildTree k (notes s) = Inr (noteTree s')"
    and ns: "notes s' = notes s"
    by auto
  have sub: "t_view ` set (all_nodes (noteTree s')) \<subseteq> note_view ` {n. \<exists>d. hops (notes s) n d}"
  proof
    fix v assume "v \<in> t_view ` set (all_nodes (noteTree s'))"
    then obtain u where u: "u \<in> set (all_nodes (noteTree s'))" "v = t_view u"
      by auto
    from buildTree_nodes[OF t u(1)] obtain m where
      "note_view m = t_view u" "hops (notes s) m (depth u)"
      by auto
    with u(2) show "v \<in> note_view ` {n. \<exists>d. hops (notes s) n d}"
      by (metis (mono_tags, lifting) imageI mem_Collect_eq)
  qed
  have sup: "note_view ` {n. \<exists>d. hops (notes s) n d} \<subseteq> t_view ` set (all_nodes (noteTree s'))"
  proof
    fix v assume "v \<in> note_view ` {n. \<exists>d. hops (notes s) n d}"
    then obtain n d where n: "hops (notes s) n d" "v = note_view n"
      by auto
    from hops_in_tree[OF t n(1)] n(2) show "v \<in> t_view ` set (all_nodes (noteTree s'))"
      by (metis imageI)
  qed
  have arch: "\<forall>n d. hops (notes s) n d \<and> is_archived n \<longrightarrow>
         (\<exists>u \<in> set (all_nodes (noteTree s')). t_view u = note_view n \<and> depth u = d \<and> t_is_archived u)"
  proof (intro allI impI)
    fix n d assume a: "hops (notes s) n d \<and> is_archived n"
    with hops_in_tree[OF t, of n d] obtain u where
      u: "u \<in> set (all_nodes (noteTree s'))" "t_view u = note_view n" "depth u = d"
      by auto
    from u(2) a have "t_is_archived u"
      by (simp add: t_view_def note_view_def)
    with u show "\<exists>u \<in> set (all_nodes (noteTree s')). t_view u = note_view n \<and> depth u = d \<and> t_is_archived u"
      by auto
  qed
  from sub sup arch ns show ?thesis
    by blast
qed

theorem tree_holds_every_reachable_note_witness:
  "buildNoteTree 5 archived_root =
     Inr (archived_root\<lparr>noteTree := [NoteTree ''a'' ''a'' None 0 True [] 0 []]\<rparr>)
   \<and> hops (notes archived_root) (mk_note ''a'' None 0 True) 0
   \<and> is_archived (mk_note ''a'' None 0 True)
   \<and> (\<exists>u \<in> set (all_nodes (noteTree (archived_root\<lparr>noteTree := [NoteTree ''a'' ''a'' None 0 True [] 0 []]\<rparr>))).
         t_view u = note_view (mk_note ''a'' None 0 True) \<and> depth u = 0 \<and> t_is_archived u)
   \<and> notes (archived_root\<lparr>noteTree := [NoteTree ''a'' ''a'' None 0 True [] 0 []]\<rparr>) = notes archived_root"
proof -
  let ?s' = "archived_root\<lparr>noteTree := [NoteTree ''a'' ''a'' None 0 True [] 0 []]\<rparr>"
  have h: "buildNoteTree 5 archived_root = Inr ?s'"
    by (simp add: buildNoteTree_def buildTree_def archived_root_def initial_state_def mk_note_def
        remote_row_def is_root_def by_position_def children_of_def numeral_eq_Suc)
  have r: "hops (notes archived_root) (mk_note ''a'' None 0 True) 0"
    by (rule hops_root) (simp_all add: archived_root_def mk_note_def is_root_def)
  have a: "is_archived (mk_note ''a'' None 0 True)"
    by (simp add: mk_note_def)
  note inst = tree_holds_every_reachable_note[OF h]
  from inst r a
  have u: "\<exists>u \<in> set (all_nodes (noteTree ?s')). t_view u = note_view (mk_note ''a'' None 0 True)
             \<and> depth u = 0 \<and> t_is_archived u"
    by blast
  from inst have n: "notes ?s' = notes archived_root"
    by blast
  show ?thesis
    by (intro conjI h r a u n)
qed

text \<open>
  C5 as stated fails: the tree of a collection whose only note is an archived root has
  that note as its root.
\<close>

theorem archived_note_in_tree_counterexample:
  "map is_archived (notes archived_root) = [True]
   \<and> buildNoteTree 5 archived_root =
       Inr (archived_root\<lparr>noteTree := [NoteTree ''a'' ''a'' None 0 True [] 0 []]\<rparr>)"
  by (simp add: buildNoteTree_def buildTree_def archived_root_def initial_state_def mk_note_def
      remote_row_def is_root_def by_position_def children_of_def numeral_eq_Suc)

section \<open>Moving a note below its own descendant\<close>

text \<open>
  C3. The claim asks that moving a note below one of its descendants is rejected and
  leaves the collection as it was. The code does not do that: with note \<open>a\<close> a root and
  \<open>b\<close> its child, offline, \<open>moveNote(a, b, 0)\<close> returns true, writes \<open>b\<close> as the parent
  of \<open>a\<close> into the collection and enqueues the update; the two notes now form a cycle
  that no root reaches, and the rebuilt tree is empty. The hook's own \<open>canMoveNote\<close>
  answers false for this move, and \<open>moveNote\<close> does not call it.
\<close>

theorem moveNote_below_descendant_is_applied:
  "canMoveNote 5 (notes two_notes) ''a'' (Some ''b'') = Inr False
   \<and> map (\<lambda>n. (note_id n, parent_id n)) (notes two_notes) = [(''a'', None), (''b'', Some ''a'')]
   \<and> fst (moveNote (log_repo [] True) ''a'' (Some ''b'') 0
            (two_notes\<lparr>isOnline := False\<rparr>, world0)) = True
   \<and> map (\<lambda>n. (note_id n, parent_id n))
         (notes (fst (snd (moveNote (log_repo [] True) ''a'' (Some ''b'') 0
            (two_notes\<lparr>isOnline := False\<rparr>, world0)))))
       = [(''a'', Some ''b''), (''b'', Some ''a'')]
   \<and> length (offlineQueue (fst (snd (moveNote (log_repo [] True) ''a'' (Some ''b'') 0
            (two_notes\<lparr>isOnline := False\<rparr>, world0))))) = 1
   \<and> noteTree (fst (snd (moveNote (log_repo [] True) ''a'' (Some ''b'') 0
            (two_notes\<lparr>isOnline := False\<rparr>, world0)))) = []"
  by code_simp

end
